theory Spec2Isabelle
  imports Main "HOL-Library.Log_Nat" "HOL-Library.AList"
begin

section \<open>Python values\<close>

text \<open>
  The scoring code of the OMR evaluation system lives in two Python modules:
  \<^verbatim>\<open>app/core/omr_processor.py\<close> (class \<^verbatim>\<open>OMRProcessor\<close>) and
  \<^verbatim>\<open>app/backend/utils.py\<close>. Both are embedded here function by function.

  Conventions of the embedding.
  \<^item> A Python \<^verbatim>\<open>str\<close> is a \<^typ>\<open>string\<close>. Question keys and answers are ASCII
    text; the case mapping and the integer literals of non-ASCII code points are outside
    the model.
  \<^item> A Python \<^verbatim>\<open>dict\<close> is an association list in insertion order. A dict has
    no duplicate keys, which is the invariant \<open>distinct (map fst d)\<close>.
  \<^item> A raised exception is the left summand of the result, with its message.
  \<^item> A Python \<^verbatim>\<open>int\<close> is an \<^typ>\<open>int\<close>; a finite \<^verbatim>\<open>float\<close> is the
    rational number it denotes, and every floating-point operation rounds its exact
    result to the nearest binary64 number, ties to even.
\<close>

datatype exn =
    ValueError string
  | KeyError string
  | IndexError string
  | ZeroDivisionError string
  | OtherException string

fun str_exn :: "exn \<Rightarrow> string" where
  "str_exn (ValueError m) = m"
| "str_exn (KeyError m) = m"
| "str_exn (IndexError m) = m"
| "str_exn (ZeroDivisionError m) = m"
| "str_exn (OtherException m) = m"

type_synonym ('k, 'v) dict = "('k \<times> 'v) list"

definition bindE :: "exn + 'a \<Rightarrow> ('a \<Rightarrow> exn + 'b) \<Rightarrow> exn + 'b" where
  "bindE r f = (case r of Inl e \<Rightarrow> Inl e | Inr v \<Rightarrow> f v)"

subsection \<open>Strings: \<^verbatim>\<open>str.upper\<close>, \<^verbatim>\<open>str.replace\<close>, \<^verbatim>\<open>int\<close>, \<^verbatim>\<open>str\<close>\<close>

definition upper_char :: "char \<Rightarrow> char" where
  "upper_char c =
     (if 97 \<le> (of_char c :: nat) \<and> (of_char c :: nat) \<le> 122
      then char_of ((of_char c :: nat) - 32) else c)"

definition py_upper :: "string \<Rightarrow> string" where
  "py_upper s = map upper_char s"

text \<open>\<^verbatim>\<open>s.replace(c, '')\<close> for a one-character pattern deletes every occurrence.\<close>

definition delete_char :: "char \<Rightarrow> string \<Rightarrow> string" where
  "delete_char c s = filter (\<lambda>d. d \<noteq> c) s"

definition isspace :: "char \<Rightarrow> bool" where
  "isspace c = ((of_char c :: nat) \<in> {9, 10, 11, 12, 13, 32})"

definition isdigit :: "char \<Rightarrow> bool" where
  "isdigit c = (48 \<le> (of_char c :: nat) \<and> (of_char c :: nat) \<le> 57)"

definition digit_val :: "char \<Rightarrow> int" where
  "digit_val c = int (of_char c) - 48"

definition strip :: "string \<Rightarrow> string" where
  "strip s = rev (dropWhile isspace (rev (dropWhile isspace s)))"

text \<open>
  The digits of an integer literal, after the first one: further digits, each optionally
  preceded by one underscore. The accumulator holds the value read so far.
\<close>

fun digits_from :: "int \<Rightarrow> string \<Rightarrow> int option" where
  "digits_from acc [] = Some acc"
| "digits_from acc [c] = (if isdigit c then Some (acc * 10 + digit_val c) else None)"
| "digits_from acc (c # d # cs) =
     (if isdigit c then digits_from (acc * 10 + digit_val c) (d # cs)
      else if c = CHR ''_'' \<and> isdigit d then digits_from (acc * 10 + digit_val d) cs
      else None)"

definition unsigned_literal :: "string \<Rightarrow> int option" where
  "unsigned_literal s =
     (case s of [] \<Rightarrow> None
      | c # cs \<Rightarrow> if isdigit c then digits_from (digit_val c) cs else None)"

text \<open>
  \<^verbatim>\<open>int(s)\<close> in base 10: surrounding white space is dropped, one sign is allowed, then
  the digits must reach the end of the string. \<open>None\<close> stands for the
  \<^verbatim>\<open>ValueError\<close> that \<^verbatim>\<open>int\<close> raises. The bound of \<^verbatim>\<open>int\<close> on the
  number of digits (\<^verbatim>\<open>sys.int_max_str_digits\<close>, 4300 by default) is not part of this
  function: it agrees with \<^verbatim>\<open>int\<close> on the strings of at most 4300 characters.
\<close>

definition py_int :: "string \<Rightarrow> int option" where
  "py_int s =
     (case strip s of [] \<Rightarrow> None
      | c # cs \<Rightarrow>
          if c = CHR ''-'' then map_option uminus (unsigned_literal cs)
          else if c = CHR ''+'' then unsigned_literal cs
          else unsigned_literal (c # cs))"

text \<open>
  The message of that \<^verbatim>\<open>ValueError\<close>. Python shows the literal with \<^verbatim>\<open>repr\<close>; the
  embedding always sets it between single quotes, which is \<^verbatim>\<open>repr\<close> for a literal of
  printable characters without quote or backslash. No statement below depends on the text
  beyond such literals.
\<close>

definition invalid_literal :: "string \<Rightarrow> exn" where
  "invalid_literal s =
     ValueError (''invalid literal for int() with base 10: '' @ [CHR 0x27] @ s @ [CHR 0x27])"

definition int_of_str :: "string \<Rightarrow> exn + int" where
  "int_of_str s = (case py_int s of None \<Rightarrow> Inl (invalid_literal s) | Some n \<Rightarrow> Inr n)"

definition digit_char :: "nat \<Rightarrow> char" where
  "digit_char n = char_of (48 + n)"

fun str_nat :: "nat \<Rightarrow> string" where
  "str_nat n = (if n < 10 then [digit_char n] else str_nat (n div 10) @ [digit_char (n mod 10)])"

declare str_nat.simps [simp del]

text \<open>\<^verbatim>\<open>str(i)\<close> of an integer.\<close>

definition py_str :: "int \<Rightarrow> string" where
  "py_str i = (if i < 0 then CHR ''-'' # str_nat (nat (- i)) else str_nat (nat i))"

text \<open>The value of a digit string read from the left, starting from \<open>a\<close>.\<close>

definition dec_val :: "int \<Rightarrow> string \<Rightarrow> int" where
  "dec_val a ds = foldl (\<lambda>a c. a * 10 + digit_val c) a ds"

subsection \<open>Sequences\<close>

text \<open>\<^verbatim>\<open>xs[i]\<close>: a negative index counts from the end.\<close>

definition py_index :: "'a list \<Rightarrow> int \<Rightarrow> exn + 'a" where
  "py_index xs i =
     (if 0 \<le> i \<and> i < int (length xs) then Inr (xs ! nat i)
      else if i < 0 \<and> - int (length xs) \<le> i then Inr (xs ! nat (int (length xs) + i))
      else Inl (IndexError ''list index out of range''))"

definition dict_get :: "(string, 'v) dict \<Rightarrow> string \<Rightarrow> exn + 'v" where
  "dict_get d k =
     (case map_of d k of None \<Rightarrow> Inl (KeyError ([CHR 0x27] @ k @ [CHR 0x27])) | Some v \<Rightarrow> Inr v)"

subsection \<open>Numbers\<close>

definition round_half_even :: "rat \<Rightarrow> int" where
  "round_half_even x =
     (let f = \<lfloor>x\<rfloor>; d = x - of_int f
      in if d < 1 / 2 then f else if 1 / 2 < d then f + 1 else if even f then f else f + 1)"

text \<open>The exponent \<open>e\<close> with \<open>2 ^ e \<le> \<bar>r\<bar> < 2 ^ (e + 1)\<close>, for \<open>r \<noteq> 0\<close>.\<close>

definition binary_exponent :: "rat \<Rightarrow> int" where
  "binary_exponent r =
     (let (p, q) = quotient_of \<bar>r\<bar>; d = bitlen p - bitlen q
      in if power_int 2 d \<le> \<bar>r\<bar> then d else d - 1)"

text \<open>
  Rounding to binary64: 53 significant bits, the unit in the last place never below
  \<open>2 ^ (- 1074)\<close>. Every quantity rounded in this development is a quotient or a small
  multiple of counts of dictionary entries, far below the overflow threshold
  \<open>2 ^ 1024\<close>, so overflow is not represented.
\<close>

definition fl :: "rat \<Rightarrow> rat" where
  "fl r =
     (if r = 0 then 0
      else let e = max (binary_exponent r) (- 1022); u = power_int 2 (e - 52)
           in of_int (round_half_even (r / u)) * u)"

datatype pynum = PyInt int | PyFloat rat

fun num_val :: "pynum \<Rightarrow> rat" where
  "num_val (PyInt i) = of_int i"
| "num_val (PyFloat r) = r"

fun to_float :: "pynum \<Rightarrow> rat" where
  "to_float (PyInt i) = fl (of_int i)"
| "to_float (PyFloat r) = r"

text \<open>\<^verbatim>\<open>a + b\<close> and \<^verbatim>\<open>a * b\<close>: exact on two ints, floating point otherwise.\<close>

fun py_add :: "pynum \<Rightarrow> pynum \<Rightarrow> pynum" where
  "py_add (PyInt a) (PyInt b) = PyInt (a + b)"
| "py_add a b = PyFloat (fl (to_float a + to_float b))"

fun py_mul :: "pynum \<Rightarrow> pynum \<Rightarrow> pynum" where
  "py_mul (PyInt a) (PyInt b) = PyInt (a * b)"
| "py_mul a b = PyFloat (fl (to_float a * to_float b))"

text \<open>\<^verbatim>\<open>a / b\<close> on two ints: the correctly rounded quotient.\<close>

definition py_truediv :: "int \<Rightarrow> int \<Rightarrow> exn + pynum" where
  "py_truediv a b =
     (if b = 0 then Inl (ZeroDivisionError ''division by zero'')
      else Inr (PyFloat (fl (of_int a / of_int b))))"

text \<open>\<^verbatim>\<open>a // b\<close> on two ints rounds towards minus infinity, as \<open>div\<close> does.\<close>

definition py_floordiv :: "int \<Rightarrow> int \<Rightarrow> exn + int" where
  "py_floordiv a b =
     (if b = 0 then Inl (ZeroDivisionError ''integer division or modulo by zero'')
      else Inr (a div b))"

text \<open>\<^verbatim>\<open>sum(xs)\<close> starts from the int \<open>0\<close> and adds from the left.\<close>

definition py_sum :: "pynum list \<Rightarrow> pynum" where
  "py_sum xs = foldl py_add (PyInt 0) xs"

text \<open>\<^verbatim>\<open>a == b\<close> on numbers compares the values, whatever the two types.\<close>

definition py_num_eq :: "pynum \<Rightarrow> pynum \<Rightarrow> bool" where
  "py_num_eq a b = (num_val a = num_val b)"


section \<open>The scorer of \<^verbatim>\<open>OMRProcessor\<close>\<close>

text \<open>
  A mapped answer is a letter, \<^verbatim>\<open>None\<close> (no mark) or a list of letters (several
  marks).
\<close>

datatype answer = ANone | AStr string | AList "string list"

record subject_config =
  subjects :: "string list"
  questions_per_subject :: int
  config_total_questions :: int

text \<open>The configuration that \<^verbatim>\<open>OMRProcessor.__init__\<close> installs.\<close>

definition default_subject_config :: subject_config where
  "default_subject_config =
     \<lparr>subjects = [''Mathematics'', ''Physics'', ''Chemistry'', ''Biology'', ''English''],
      questions_per_subject = 20,
      config_total_questions = 100\<rparr>"

record breakdown =
  correct :: int
  total :: int
  percentage :: pynum

record scores =
  subject_scores :: "(string, pynum) dict"
  total_score :: pynum
  correct_answers :: int
  total_questions :: int
  subject_breakdown :: "(string, breakdown) dict"

text \<open>
  The loop state: the \<^verbatim>\<open>scores\<close> dict under construction and the two local
  counters \<^verbatim>\<open>total_correct\<close> and \<^verbatim>\<open>total_questions\<close>.
\<close>

record score_state =
  acc :: scores
  total_correct :: int
  total_questions_seen :: int

fun foldE :: "('a \<Rightarrow> 's \<Rightarrow> exn + 's) \<Rightarrow> 'a list \<Rightarrow> 's \<Rightarrow> exn + 's" where
  "foldE f [] s = Inr s"
| "foldE f (x # xs) s = bindE (f x s) (foldE f xs)"

definition empty_scores :: scores where
  "empty_scores =
     \<lparr>subject_scores = [], total_score = PyInt 0, correct_answers = 0,
      total_questions = 0, subject_breakdown = []\<rparr>"

definition init_subject :: "subject_config \<Rightarrow> scores \<Rightarrow> string \<Rightarrow> scores" where
  "init_subject cfg sc subject =
     sc\<lparr>subject_scores := AList.update subject (PyInt 0) (subject_scores sc),
        subject_breakdown :=
          AList.update subject
            \<lparr>correct = 0, total = questions_per_subject cfg, percentage = PyInt 0\<rparr>
            (subject_breakdown sc)\<rparr>"

definition init_scores :: "subject_config \<Rightarrow> scores" where
  "init_scores cfg = foldl (init_subject cfg) empty_scores (subjects cfg)"

text \<open>
  Lines 89 to 96: the subject a question key is scored under. \<open>Inr None\<close> is the
  \<^verbatim>\<open>continue\<close> of a subject index at or beyond the number of subjects.
\<close>

definition subject_of_question :: "subject_config \<Rightarrow> string \<Rightarrow> exn + string option" where
  "subject_of_question cfg question_key =
     bindE (int_of_str (delete_char CHR ''Q'' question_key)) (\<lambda>question_num.
     bindE (py_floordiv (question_num - 1) (questions_per_subject cfg)) (\<lambda>subject_index.
       if int (length (subjects cfg)) \<le> subject_index then Inr None
       else bindE (py_index (subjects cfg) subject_index) (\<lambda>subject. Inr (Some subject))))"

text \<open>Lines 103 to 111.\<close>

fun is_correct :: "answer \<Rightarrow> string \<Rightarrow> bool" where
  "is_correct (AList ls) correct_answer = False"
| "is_correct ANone correct_answer = False"
| "is_correct (AStr student_answer) correct_answer =
     (py_upper student_answer = py_upper correct_answer)"

definition set_total :: "int \<Rightarrow> breakdown \<Rightarrow> breakdown" where
  "set_total t b = b\<lparr>total := t\<rparr>"

definition add_correct :: "breakdown \<Rightarrow> breakdown" where
  "add_correct b = b\<lparr>correct := correct b + 1\<rparr>"

text \<open>
  \<^verbatim>\<open>d[k] = f(d[k])\<close>: the read raises \<^verbatim>\<open>KeyError\<close> on a missing key.
\<close>

definition dict_modify ::
  "(string, 'v) dict \<Rightarrow> string \<Rightarrow> ('v \<Rightarrow> 'v) \<Rightarrow> exn + (string, 'v) dict" where
  "dict_modify d k f = bindE (dict_get d k) (\<lambda>v. Inr (AList.update k (f v) d))"

text \<open>Lines 96 to 116: the bookkeeping of one scored question.\<close>

definition record_question ::
  "subject_config \<Rightarrow> string \<Rightarrow> bool \<Rightarrow> score_state \<Rightarrow> exn + score_state" where
  "record_question cfg subject ok st =
     bindE (dict_modify (subject_breakdown (acc st)) subject
              (set_total (questions_per_subject cfg))) (\<lambda>bd.
       if ok then
         bindE (dict_modify (subject_scores (acc st)) subject (\<lambda>v. py_add v (PyInt 1))) (\<lambda>ss.
         bindE (dict_modify bd subject add_correct) (\<lambda>bd'.
           Inr (st\<lparr>acc := (acc st)\<lparr>subject_scores := ss, subject_breakdown := bd'\<rparr>,
                   total_correct := total_correct st + 1,
                   total_questions_seen := total_questions_seen st + 1\<rparr>)))
       else
         Inr (st\<lparr>acc := (acc st)\<lparr>subject_breakdown := bd\<rparr>,
                 total_questions_seen := total_questions_seen st + 1\<rparr>))"

text \<open>Lines 84 to 116: the body of the loop over \<^verbatim>\<open>student_answers.items()\<close>.\<close>

definition score_question ::
  "subject_config \<Rightarrow> (string, string) dict \<Rightarrow> string \<times> answer \<Rightarrow> score_state
     \<Rightarrow> exn + score_state" where
  "score_question cfg answer_key item st =
     (case item of (question_key, student_answer) \<Rightarrow>
        (case map_of answer_key question_key of
           None \<Rightarrow> Inr st
         | Some correct_answer \<Rightarrow>
             bindE (subject_of_question cfg question_key) (\<lambda>subj.
               case subj of
                 None \<Rightarrow> Inr st
               | Some subject \<Rightarrow>
                   record_question cfg subject (is_correct student_answer correct_answer) st)))"

text \<open>Lines 119 to 124: percentage and 20-point score of one subject.\<close>

definition finalize_subject :: "string \<Rightarrow> scores \<Rightarrow> exn + scores" where
  "finalize_subject subject sc =
     bindE (dict_get (subject_breakdown sc) subject) (\<lambda>b.
       if 0 < total b then
         bindE (py_truediv (correct b) (total b)) (\<lambda>ratio.
         bindE (py_truediv (correct b) (total b)) (\<lambda>ratio'.
           Inr (sc\<lparr>subject_breakdown :=
                      AList.update subject (b\<lparr>percentage := py_mul ratio (PyInt 100)\<rparr>)
                        (subject_breakdown sc),
                   subject_scores :=
                      AList.update subject (py_mul ratio' (PyInt 20)) (subject_scores sc)\<rparr>)))
       else Inr sc)"

text \<open>\<^verbatim>\<open>OMRProcessor.calculate_subject_scores\<close>, lines 57 to 130.\<close>

definition calculate_subject_scores ::
  "subject_config \<Rightarrow> (string, answer) dict \<Rightarrow> (string, string) dict \<Rightarrow> exn + scores" where
  "calculate_subject_scores cfg student_answers answer_key =
     bindE (foldE (score_question cfg answer_key) student_answers
              \<lparr>acc = init_scores cfg, total_correct = 0, total_questions_seen = 0\<rparr>) (\<lambda>st.
     bindE (foldE finalize_subject (subjects cfg) (acc st)) (\<lambda>sc.
       Inr (sc\<lparr>correct_answers := total_correct st,
               total_questions := total_questions_seen st,
               total_score := py_sum (map snd (subject_scores sc))\<rparr>)))"

subsection \<open>What the scorer counts\<close>

text \<open>
  The subject an item of \<^verbatim>\<open>student_answers\<close> is scored under: none when its key
  is not in the answer key, when its subject index is at or beyond the number of subjects,
  or when the key makes the loop body raise.
\<close>

definition scored_under ::
  "subject_config \<Rightarrow> (string, string) dict \<Rightarrow> string \<times> answer \<Rightarrow> string option" where
  "scored_under cfg answer_key item =
     (case map_of answer_key (fst item) of
        None \<Rightarrow> None
      | Some l \<Rightarrow>
          (case subject_of_question cfg (fst item) of Inr (Some s) \<Rightarrow> Some s | _ \<Rightarrow> None))"

text \<open>An item whose answer stands in relation \<open>P\<close> to the key's entry for its question.\<close>

definition credited ::
  "(string, string) dict \<Rightarrow> (answer \<Rightarrow> string \<Rightarrow> bool) \<Rightarrow> string \<times> answer \<Rightarrow> bool" where
  "credited answer_key P item =
     (case map_of answer_key (fst item) of None \<Rightarrow> False | Some l \<Rightarrow> P (snd item) l)"

definition correct_in ::
  "subject_config \<Rightarrow> (string, string) dict \<Rightarrow> string \<Rightarrow> (string, answer) dict \<Rightarrow> int" where
  "correct_in cfg answer_key s xs =
     int (length (filter (\<lambda>item. scored_under cfg answer_key item = Some s
                                \<and> credited answer_key is_correct item) xs))"

definition num_scored ::
  "subject_config \<Rightarrow> (string, string) dict \<Rightarrow> (string, answer) dict \<Rightarrow> int" where
  "num_scored cfg answer_key xs =
     int (length (filter (\<lambda>item. scored_under cfg answer_key item \<noteq> None) xs))"

definition num_credited ::
  "subject_config \<Rightarrow> (string, string) dict \<Rightarrow> (string, answer) dict \<Rightarrow> int" where
  "num_credited cfg answer_key xs =
     int (length (filter (\<lambda>item. scored_under cfg answer_key item \<noteq> None
                                \<and> credited answer_key is_correct item) xs))"

text \<open>
  An item the loop body gets through: its key is not in the answer key, or the subject of
  its question is found without an exception.
\<close>

definition scorable :: "subject_config \<Rightarrow> (string, string) dict \<Rightarrow> string \<times> answer \<Rightarrow> bool" where
  "scorable cfg answer_key item =
     (case map_of answer_key (fst item) of
        None \<Rightarrow> True
      | Some l \<Rightarrow> (case subject_of_question cfg (fst item) of Inr x \<Rightarrow> True | Inl e \<Rightarrow> False))"

text \<open>Line 89: the question number of a key.\<close>

definition question_number :: "string \<Rightarrow> int option" where
  "question_number question_key = py_int (delete_char CHR ''Q'' question_key)"

text \<open>
  A sheet that answers each of the questions 1 to 100 once: the question numbers of its
  keys are pairwise different and are exactly 1 to 100.
\<close>

definition full_sheet :: "(string, answer) dict \<Rightarrow> bool" where
  "full_sheet student_answers =
     (distinct (map (question_number \<circ> fst) student_answers) \<and>
      set (map (question_number \<circ> fst) student_answers) = set (map Some [1..100]))"

text \<open>The question numbers of the subject with index \<open>i\<close>, 20 questions per subject.\<close>

definition block :: "nat \<Rightarrow> int set" where
  "block i = {int i * 20 + 1 .. int i * 20 + 20}"

text \<open>
  A sheet numbered from 1: every key that also stands in the answer key is the literal of a
  question number of at least 1, and is at most 4300 characters long. The length keeps the
  literal within the number of digits that \<^verbatim>\<open>int\<close> converts by default; beyond it
  \<^verbatim>\<open>int\<close> raises \<^verbatim>\<open>ValueError\<close>, which \<^const>\<open>py_int\<close> does not model.
\<close>

definition numbered_from_one :: "(string, string) dict \<Rightarrow> (string, answer) dict \<Rightarrow> bool" where
  "numbered_from_one answer_key student_answers =
     list_all (\<lambda>item. map_of answer_key (fst item) = None \<or>
                 (length (fst item) \<le> 4300 \<and>
                  (case question_number (fst item) of None \<Rightarrow> False | Some n \<Rightarrow> 1 \<le> n)))
       student_answers"

text \<open>
  The correct answers of the subject with index \<open>i\<close>: the items of the sheet whose
  question number lies in the subject's block of 20 and whose answer the comparison of lines
  103 to 111 accepts against the key's entry.
\<close>

definition correct_in_block :: "(string, string) dict \<Rightarrow> nat \<Rightarrow> (string, answer) dict \<Rightarrow> int" where
  "correct_in_block answer_key i student_answers =
     int (length (filter (\<lambda>item. question_number (fst item) \<in> Some ` block i
                                \<and> credited answer_key is_correct item) student_answers))"

text \<open>
  The specification's notion of a correct answer: a single letter that equals the key's
  letter when case is ignored.
\<close>

definition is_letter :: "char \<Rightarrow> bool" where
  "is_letter c =
     ((65 \<le> (of_char c :: nat) \<and> (of_char c :: nat) \<le> 90) \<or>
      (97 \<le> (of_char c :: nat) \<and> (of_char c :: nat) \<le> 122))"

definition single_letter :: "string \<Rightarrow> bool" where
  "single_letter s = (case s of [c] \<Rightarrow> is_letter c | _ \<Rightarrow> False)"

definition spec_correct :: "answer \<Rightarrow> string \<Rightarrow> bool" where
  "spec_correct a k =
     (case a of
        AStr s \<Rightarrow> single_letter s \<and> single_letter k \<and> py_upper s = py_upper k
      | _ \<Rightarrow> False)"

text \<open>Dictionaries over the subject list, written as tables of a function.\<close>

definition tabulate :: "'a list \<Rightarrow> ('a \<Rightarrow> 'b) \<Rightarrow> ('a \<times> 'b) list" where
  "tabulate xs f = map (\<lambda>x. (x, f x)) xs"

definition tally_state ::
  "subject_config \<Rightarrow> (string \<Rightarrow> int) \<Rightarrow> int \<Rightarrow> int \<Rightarrow> score_state" where
  "tally_state cfg n tc tq =
     \<lparr>acc = \<lparr>subject_scores = tabulate (subjects cfg) (\<lambda>s. PyInt (n s)),
             total_score = PyInt 0, correct_answers = 0, total_questions = 0,
             subject_breakdown =
               tabulate (subjects cfg)
                 (\<lambda>s. \<lparr>correct = n s, total = questions_per_subject cfg,
                       percentage = PyInt 0\<rparr>)\<rparr>,
      total_correct = tc, total_questions_seen = tq\<rparr>"

definition subject_result :: "subject_config \<Rightarrow> int \<Rightarrow> breakdown" where
  "subject_result cfg c =
     \<lparr>correct = c, total = questions_per_subject cfg, percentage = PyInt 0\<rparr>"

definition final_percentage :: "breakdown \<Rightarrow> pynum" where
  "final_percentage b =
     py_mul (PyFloat (fl (of_int (correct b) / of_int (total b)))) (PyInt 100)"

definition final_score :: "breakdown \<Rightarrow> pynum" where
  "final_score b =
     py_mul (PyFloat (fl (of_int (correct b) / of_int (total b)))) (PyInt 20)"

section \<open>Answer keys and flagged questions (\<^verbatim>\<open>utils.py\<close>)\<close>

subsection \<open>\<^verbatim>\<open>validate_answer_key\<close>\<close>

text \<open>
  The function reports its findings as formatted strings. The embedding keeps the data of
  each message and drops the formatting.
\<close>

datatype key_error =
    WrongCount int int
  | OutOfRange string int
  | BadNumber string
  | BadAnswer string string
  | MissingAnswers "string list"

datatype key_warning =
    UnusuallyHigh string pynum
  | UnusuallyLow string pynum

record validation =
  valid :: bool
  errors :: "key_error list"
  warnings :: "key_warning list"
  answer_distribution :: "(string, int) dict"
  key_total_questions :: int

definition valid_answers :: "string list" where
  "valid_answers = [''A'', ''B'', ''C'', ''D'']"

text \<open>Lines 112 to 121: the findings on one entry of the key.\<close>

definition check_entry :: "int \<Rightarrow> string \<times> string \<Rightarrow> key_error list" where
  "check_entry tq entry =
     (case entry of (q_num, answer) \<Rightarrow>
        (case py_int q_num of
           None \<Rightarrow> [BadNumber q_num]
         | Some q_int \<Rightarrow> if q_int < 1 \<or> tq < q_int then [OutOfRange q_num tq] else [])
        @ (if answer \<notin> set valid_answers then [BadAnswer answer q_num] else []))"

text \<open>
  Lines 124 to 126 and the sort of line 129: the expected question numbers that are not
  keys, in increasing order.
\<close>

definition missing_questions :: "(string, string) dict \<Rightarrow> int \<Rightarrow> string list" where
  "missing_questions answer_key tq =
     filter (\<lambda>q. q \<notin> set (map fst answer_key)) (map py_str [1..tq])"

text \<open>Lines 132 to 135: \<^verbatim>\<open>answer_counts[answer] = answer_counts.get(answer, 0) + 1\<close>.\<close>

definition count_answer :: "(string, int) dict \<Rightarrow> string \<Rightarrow> (string, int) dict" where
  "count_answer answer_counts answer =
     (if answer \<in> set valid_answers
      then AList.update answer
             ((case map_of answer_counts answer of None \<Rightarrow> 0 | Some c \<Rightarrow> c) + 1) answer_counts
      else answer_counts)"

text \<open>Lines 139 to 144: the warning, if any, on one answer of the distribution.\<close>

definition skew_warning :: "int \<Rightarrow> string \<times> int \<Rightarrow> exn + key_warning list" where
  "skew_warning total_valid entry =
     (case entry of (answer, count) \<Rightarrow>
        bindE (py_truediv count total_valid) (\<lambda>ratio.
          let percentage = py_mul ratio (PyInt 100)
          in if 40 < num_val percentage then Inr [UnusuallyHigh answer percentage]
             else if num_val percentage < 15 then Inr [UnusuallyLow answer percentage]
             else Inr []))"

fun collect_warnings :: "int \<Rightarrow> (string, int) dict \<Rightarrow> exn + key_warning list" where
  "collect_warnings total_valid [] = Inr []"
| "collect_warnings total_valid (entry # rest) =
     bindE (skew_warning total_valid entry) (\<lambda>w.
     bindE (collect_warnings total_valid rest) (\<lambda>ws. Inr (w @ ws)))"

definition key_errors :: "(string, string) dict \<Rightarrow> int \<Rightarrow> key_error list" where
  "key_errors answer_key tq =
     (if int (length answer_key) \<noteq> tq then [WrongCount tq (int (length answer_key))] else [])
     @ concat (map (check_entry tq) answer_key)
     @ (if missing_questions answer_key tq \<noteq> []
        then [MissingAnswers (missing_questions answer_key tq)] else [])"

definition validate_answer_key :: "(string, string) dict \<Rightarrow> int \<Rightarrow> exn + validation" where
  "validate_answer_key answer_key tq =
     (let errs = key_errors answer_key tq;
          answer_counts = foldl count_answer [] (map snd answer_key)
      in bindE (if answer_counts \<noteq> []
                then collect_warnings (sum_list (map snd answer_counts)) answer_counts
                else Inr []) (\<lambda>warns.
           Inr \<lparr>valid = (length errs = 0), errors = errs, warnings = warns,
                answer_distribution = answer_counts,
                key_total_questions = int (length answer_key)\<rparr>))"

subsection \<open>\<^verbatim>\<open>identify_flagged_questions\<close>\<close>

text \<open>
  \<^verbatim>\<open>sorted(xs, key=int)\<close>: every key is computed first, so one string that is not an
  integer literal raises \<^verbatim>\<open>ValueError\<close>; the sort is stable.
\<close>

fun int_keys :: "string list \<Rightarrow> exn + (int \<times> string) list" where
  "int_keys [] = Inr []"
| "int_keys (s # ss) =
     bindE (int_of_str s) (\<lambda>k. bindE (int_keys ss) (\<lambda>ks. Inr ((k, s) # ks)))"

definition sorted_by_int :: "string list \<Rightarrow> exn + string list" where
  "sorted_by_int xs = bindE (int_keys xs) (\<lambda>ks. Inr (map snd (sort_key fst ks)))"

text \<open>
  Lines 231 to 243. A confidence is a finite float, compared by value. \<^verbatim>\<open>set(flagged)\<close>
  keeps one copy of each string; Python leaves the iteration order of a set open, and with
  it the relative order of two flagged strings that denote the same integer. The embedding
  takes the order of first occurrence.
\<close>

definition no_answer :: "(string, answer) dict \<Rightarrow> string \<Rightarrow> bool" where
  "no_answer student_answers q_str =
     (case map_of student_answers q_str of None \<Rightarrow> True | Some a \<Rightarrow> a = AStr [])"

definition flagged_list :: "(string, answer) dict \<Rightarrow> (string, rat) dict \<Rightarrow> rat \<Rightarrow> string list" where
  "flagged_list student_answers confidence_scores confidence_threshold =
     map fst (filter (\<lambda>(q_num, confidence). confidence < confidence_threshold) confidence_scores)
     @ filter (no_answer student_answers) (map py_str [1..100])"

definition identify_flagged_questions ::
  "(string, answer) dict \<Rightarrow> (string, rat) dict \<Rightarrow> rat \<Rightarrow> exn + string list" where
  "identify_flagged_questions student_answers confidence_scores confidence_threshold =
     sorted_by_int (remdups (flagged_list student_answers confidence_scores confidence_threshold))"

subsection \<open>\<^verbatim>\<open>utils.calculate_subject_scores\<close>\<close>

record subject_summary =
  score :: int
  summary_total :: int
  summary_percentage :: pynum

record utils_scores =
  utils_subject_scores :: "(string, subject_summary) dict"
  utils_total_score :: int
  utils_total_questions :: int
  overall_percentage :: pynum

text \<open>
  Lines 202 to 206, one question number of a subject: the pair is
  \<^verbatim>\<open>(correct_count, subject_total)\<close>. The student's entry is a mapped answer, the
  key's entry a string; \<^verbatim>\<open>==\<close> holds when the answer is that string.
\<close>

definition tally_question ::
  "(string, answer) dict \<Rightarrow> (string, string) dict \<Rightarrow> int \<times> int \<Rightarrow> int \<Rightarrow> int \<times> int" where
  "tally_question student_answers answer_key counts q_num =
     (case counts of (correct_count, subject_total) \<Rightarrow>
        (case (map_of student_answers (py_str q_num), map_of answer_key (py_str q_num)) of
           (Some a, Some l) \<Rightarrow>
             (if a = AStr l then correct_count + 1 else correct_count, subject_total + 1)
         | _ \<Rightarrow> (correct_count, subject_total)))"

text \<open>\<^verbatim>\<open>(a / b * 100) if b > 0 else 0\<close>.\<close>

definition percentage_of :: "int \<Rightarrow> int \<Rightarrow> exn + pynum" where
  "percentage_of a b =
     (if 0 < b then bindE (py_truediv a b) (\<lambda>ratio. Inr (py_mul ratio (PyInt 100)))
      else Inr (PyInt 0))"

text \<open>
  Lines 194 to 215, the body of the loop over \<^verbatim>\<open>enumerate(subjects)\<close>. The state is
  \<^verbatim>\<open>(subject_scores, total_correct, total_questions)\<close>.
\<close>

definition tally_subject ::
  "(string, answer) dict \<Rightarrow> (string, string) dict \<Rightarrow> int \<Rightarrow> nat \<times> string
     \<Rightarrow> (string, subject_summary) dict \<times> int \<times> int
     \<Rightarrow> exn + (string, subject_summary) dict \<times> int \<times> int" where
  "tally_subject student_answers answer_key qps entry st =
     (case entry of (i, subject) \<Rightarrow>
      case st of (summaries, tc, tq) \<Rightarrow>
        let start_q = int i * qps + 1;
            end_q = (int i + 1) * qps;
            counts = foldl (tally_question student_answers answer_key) (0, 0) [start_q..end_q]
        in bindE (percentage_of (fst counts) (snd counts)) (\<lambda>p.
             Inr (AList.update subject
                    \<lparr>score = fst counts, summary_total = snd counts, summary_percentage = p\<rparr>
                    summaries,
                  tc + fst counts, tq + snd counts)))"

definition utils_calculate_subject_scores ::
  "(string, answer) dict \<Rightarrow> (string, string) dict \<Rightarrow> string list option \<Rightarrow> int
     \<Rightarrow> exn + utils_scores" where
  "utils_calculate_subject_scores student_answers answer_key subjects_arg qps =
     (let subjs = (case subjects_arg of
                     None \<Rightarrow> [''Mathematics'', ''Physics'', ''Chemistry'', ''Biology'', ''English'']
                   | Some ss \<Rightarrow> ss)
      in bindE (foldE (tally_subject student_answers answer_key qps)
                  (zip [0..<length subjs] subjs) ([], 0, 0)) (\<lambda>st.
           case st of (summaries, tc, tq) \<Rightarrow>
             bindE (percentage_of tc tq) (\<lambda>p.
               Inr \<lparr>utils_subject_scores = summaries,
                    utils_total_score = tc,
                    utils_total_questions = tq,
                    overall_percentage = p\<rparr>)))"

subsection \<open>Comparing the two scorers\<close>

text \<open>
  Lines 203 to 205 of \<^verbatim>\<open>utils.py\<close>: question \<open>q_num\<close> is in both dicts and
  the two entries are equal.
\<close>

definition answers_agree :: "(string, answer) dict \<Rightarrow> (string, string) dict \<Rightarrow> int \<Rightarrow> bool" where
  "answers_agree student_answers answer_key q_num =
     (case (map_of student_answers (py_str q_num), map_of answer_key (py_str q_num)) of
        (Some a, Some l) \<Rightarrow> a = AStr l
      | _ \<Rightarrow> False)"

text \<open>The agreeing questions among those of the subject with index \<open>i\<close>.\<close>

definition subject_matches :: "(string, answer) dict \<Rightarrow> (string, string) dict \<Rightarrow> int \<Rightarrow> nat \<Rightarrow> int" where
  "subject_matches student_answers answer_key qps i =
     int (length (filter (answers_agree student_answers answer_key)
                    [int i * qps + 1 .. (int i + 1) * qps]))"

text \<open>A single upper-case letter; a mapped answer that is one; keys exactly 1 to 100.\<close>

definition upper_letter :: "string \<Rightarrow> bool" where
  "upper_letter s =
     (case s of [c] \<Rightarrow> 65 \<le> (of_char c :: nat) \<and> (of_char c :: nat) \<le> 90 | _ \<Rightarrow> False)"

definition upper_letter_answer :: "answer \<Rightarrow> bool" where
  "upper_letter_answer a = (case a of AStr s \<Rightarrow> upper_letter s | _ \<Rightarrow> False)"

definition exact_keys :: "(string, 'v) dict \<Rightarrow> bool" where
  "exact_keys d = (distinct (map fst d) \<and> set (map fst d) = set (map py_str [1..100]))"

section \<open>The sheet pipeline of \<^verbatim>\<open>OMRProcessor\<close>\<close>

subsection \<open>Images, detection results and the audit overlay\<close>

text \<open>
  An image is a grid of 8-bit pixels, with one channel (\<^verbatim>\<open>len(shape) == 2\<close>) or with
  three. What OpenCV draws is kept as the list of shapes, in drawing order, beside the
  pixels they are drawn on; the rasterisation is not modelled.
\<close>

datatype image = Gray "nat list list" | Color "(nat \<times> nat \<times> nat) list list"

type_synonym color = "nat \<times> nat \<times> nat"

datatype shape =
    Circle int int int color int
  | Rectangle int int int int color int
  | Label string int int

record overlay =
  base :: image
  drawn :: "shape list"

text \<open>\<^verbatim>\<open>cv2.cvtColor(img, cv2.COLOR_GRAY2BGR)\<close> copies the gray value into each channel.\<close>

fun to_bgr :: "image \<Rightarrow> image" where
  "to_bgr (Gray px) = Color (map (map (\<lambda>g. (g, g, g))) px)"
| "to_bgr (Color px) = Color px"

definition unannotated :: "image \<Rightarrow> overlay" where
  "unannotated img = \<lparr>base = img, drawn = []\<rparr>"

text \<open>
  The dicts that \<^verbatim>\<open>BubbleDetector\<close> hands over, as far as \<^verbatim>\<open>OMRProcessor\<close> reads
  them. An entry that may be missing is an option; \<open>grid_other_keys\<close> names the
  entries of the grid dict besides \<^verbatim>\<open>"rows"\<close>, which only matter for the dict being
  empty or not.
\<close>

record bubble_info =
  bubble :: "int list"
  index :: int

record grid =
  rows :: "bubble_info list list option"
  grid_other_keys :: "string list"

record bubble_results =
  bubbles_detected :: "int option"
  grid_structure :: "grid option"
  classifications :: "bool list option"
  confidence_scores :: "rat list option"

text \<open>A dict is true when it is not empty.\<close>

definition grid_truthy :: "grid \<Rightarrow> bool" where
  "grid_truthy g = (rows g \<noteq> None \<or> grid_other_keys g \<noteq> [])"

text \<open>
  Lines 165 to 176: colour and thickness from the classification. The comparison
  \<^verbatim>\<open>bubble_index < len(classifications)\<close> lets a negative index through to the
  subscript.
\<close>

definition bubble_style :: "bool list \<Rightarrow> int \<Rightarrow> exn + color \<times> int" where
  "bubble_style cls bubble_index =
     (if bubble_index < int (length cls) then
        bindE (py_index cls bubble_index) (\<lambda>is_filled.
          if is_filled then Inr ((0, 255, 0), 3) else Inr ((255, 0, 0), 1))
      else Inr ((128, 128, 128), 1))"

text \<open>
  Lines 179 to 184: a bubble of three numbers is a circle, any other is unpacked into
  four. \<^verbatim>\<open>cv2.circle\<close> rejects a negative radius. Coordinates are unbounded integers
  here; OpenCV also rejects one outside the range of a C \<^verbatim>\<open>int\<close>, with an exception that
  the \<^verbatim>\<open>except\<close> of the renderer catches like the others.
\<close>

definition bubble_shape :: "int list \<Rightarrow> color \<Rightarrow> int \<Rightarrow> exn + shape" where
  "bubble_shape b col thickness =
     (case b of
        [x, y, r] \<Rightarrow>
          if r < 0 then Inl (OtherException ''cv2.error: radius >= 0'')
          else Inr (Circle x y r col thickness)
      | [x, y, w, h] \<Rightarrow> Inr (Rectangle x y (x + w) (y + h) col thickness)
      | _ \<Rightarrow> Inl (ValueError ''wrong number of values to unpack''))"

text \<open>
  Drawing changes the overlay in place, so what was drawn before an exception stays:
  a drawing step returns the overlay together with the exception, if any.
\<close>

fun draw_bubbles :: "bool list \<Rightarrow> bubble_info list \<Rightarrow> overlay \<Rightarrow> overlay \<times> exn option" where
  "draw_bubbles cls [] ov = (ov, None)"
| "draw_bubbles cls (info # rest) ov =
     (case bindE (bubble_style cls (index info)) (\<lambda>(col, thickness).
             bubble_shape (bubble info) col thickness) of
        Inl e \<Rightarrow> (ov, Some e)
      | Inr sh \<Rightarrow> draw_bubbles cls rest (ov\<lparr>drawn := drawn ov @ [sh]\<rparr>))"

text \<open>Lines 187 to 195: the label \<^verbatim>\<open>Q<n>\<close> left of the first bubble.\<close>

definition question_label :: "int list \<Rightarrow> int \<Rightarrow> exn + shape" where
  "question_label first_bubble question_num =
     (case first_bubble of
        [x, y, r] \<Rightarrow> Inr (Label (''Q'' @ py_str question_num) (x - 30) y)
      | [x, y, w, h] \<Rightarrow> Inr (Label (''Q'' @ py_str question_num) (x - 30) (y + h div 2))
      | _ \<Rightarrow> Inl (IndexError ''list index out of range''))"

text \<open>
  Lines 153 to 197, one row: groups of four bubbles, a shorter last group skipped. The
  state is the overlay and \<^verbatim>\<open>question_num\<close>.
\<close>

fun draw_row ::
  "bool list \<Rightarrow> bubble_info list \<Rightarrow> overlay \<times> int \<Rightarrow> (overlay \<times> int) \<times> exn option" where
  "draw_row cls (b1 # b2 # b3 # b4 # rest) (ov, question_num) =
     (case draw_bubbles cls [b1, b2, b3, b4] ov of
        (ov1, Some e) \<Rightarrow> ((ov1, question_num), Some e)
      | (ov1, None) \<Rightarrow>
          (case question_label (bubble b1) question_num of
             Inl e \<Rightarrow> ((ov1, question_num), Some e)
           | Inr lab \<Rightarrow>
               draw_row cls rest (ov1\<lparr>drawn := drawn ov1 @ [lab]\<rparr>, question_num + 1)))"
| "draw_row cls short st = (st, None)"

fun draw_rows ::
  "bool list \<Rightarrow> bubble_info list list \<Rightarrow> overlay \<times> int \<Rightarrow> (overlay \<times> int) \<times> exn option" where
  "draw_rows cls [] st = (st, None)"
| "draw_rows cls (row # below) st =
     (case draw_row cls row st of
        (st1, Some e) \<Rightarrow> (st1, Some e)
      | (st1, None) \<Rightarrow> draw_rows cls below st1)"

text \<open>
  \<^verbatim>\<open>create_overlay_image\<close>, lines 132 to 203. The test of line 142 stands before the
  \<^verbatim>\<open>try\<close>: its subscript \<^verbatim>\<open>["rows"]\<close> on a grid dict that is not empty and has no
  such entry raises \<^verbatim>\<open>KeyError\<close> to the caller. Inside the \<^verbatim>\<open>try\<close> every
  exception ends in \<^verbatim>\<open>return overlay\<close>.
\<close>

definition create_overlay_image ::
  "image \<Rightarrow> bubble_results \<Rightarrow> (string, answer) dict \<Rightarrow> exn + overlay" where
  "create_overlay_image original_image bubble_results student_answers =
     (let ov = unannotated (to_bgr original_image)
      in case grid_structure bubble_results of
           None \<Rightarrow> Inr ov
         | Some g \<Rightarrow>
             if \<not> grid_truthy g then Inr ov
             else (case rows g of
                     None \<Rightarrow> Inl (KeyError ([CHR 0x27] @ ''rows'' @ [CHR 0x27]))
                   | Some rs \<Rightarrow>
                       if rs = [] then Inr ov
                       else (case classifications bubble_results of
                               None \<Rightarrow> Inr ov
                             | Some cls \<Rightarrow> Inr (fst (fst (draw_rows cls rs (ov, 1)))))))"

subsection \<open>\<^verbatim>\<open>process_omr_sheet\<close> and \<^verbatim>\<open>batch_process_omr_sheets\<close>\<close>

text \<open>
  The modules \<^verbatim>\<open>image_processor\<close> and \<^verbatim>\<open>bubble_detector\<close>, OpenCV's file output,
  numpy's mean and the clock are not part of the embedded sources. They are parameters:
  each call takes the state \<open>'w\<close> of the outside world (files, detector state) and
  returns the new one together with its value or the exception it raises.
\<close>

record answer_mapping =
  answers :: "(string, answer) dict"
  flagged_questions :: "(string \<times> string) list"

record ('info, 'w) collaborators =
  preprocess_image :: "string \<Rightarrow> 'w \<Rightarrow> (exn + image \<times> 'info) \<times> 'w"
  load_image :: "string \<Rightarrow> 'w \<Rightarrow> (exn + image) \<times> 'w"
  detect_and_classify_bubbles :: "image \<Rightarrow> 'w \<Rightarrow> (exn + bubble_results) \<times> 'w"
  map_bubbles_to_answers :: "grid \<Rightarrow> bool list \<Rightarrow> 'w \<Rightarrow> (exn + answer_mapping) \<times> 'w"
  imwrite :: "string \<Rightarrow> overlay \<Rightarrow> 'w \<Rightarrow> (exn + unit) \<times> 'w"
  np_mean :: "rat list \<Rightarrow> rat"
  utcnow :: "'w \<Rightarrow> string \<times> 'w"

text \<open>The state of an \<^verbatim>\<open>OMRProcessor\<close> object.\<close>

record processor =
  answer_keys :: "(string, (string, string) dict) dict"
  subject_config :: subject_config

definition new_processor :: processor where
  "new_processor = \<lparr>answer_keys = [], subject_config = default_subject_config\<rparr>"

definition set_answer_key :: "string \<Rightarrow> (string, string) dict \<Rightarrow> processor \<Rightarrow> processor" where
  "set_answer_key version answer_key self =
     self\<lparr>answer_keys := AList.update version answer_key (answer_keys self)\<rparr>"

text \<open>Line 55: the placeholder always answers \<^verbatim>\<open>"A"\<close>.\<close>

definition detect_sheet_version :: "image \<Rightarrow> string" where
  "detect_sheet_version img = ''A''"

datatype score_section = NoScores | Scored scores | ScoreError string

record confidence_metrics =
  average_confidence :: rat
  min_confidence :: rat
  max_confidence :: rat
  low_confidence_count :: int

record file_paths =
  original :: string
  processed :: "string option"
  overlay_path :: "string option"

text \<open>
  The \<^verbatim>\<open>results\<close> dict of \<^verbatim>\<open>process_omr_sheet\<close>. An entry that starts as the empty
  dict \<^verbatim>\<open>{}\<close> is an option, \<open>None\<close> for \<^verbatim>\<open>{}\<close>.
\<close>

record 'info sheet_result =
  success :: bool
  student_id :: "string option"
  sheet_version :: "string option"
  processing_info :: "'info option"
  bubble_detection :: "bubble_results option"
  mapped_answers :: "(string, answer) dict"
  score_section :: score_section
  flagged :: "(string \<times> string) list"
  confidence :: "confidence_metrics option"
  paths :: file_paths
  timestamp :: string
  error_message :: "string option"

text \<open>
  The body of the \<^verbatim>\<open>try\<close> is a program over the pair of the \<^verbatim>\<open>results\<close> dict and
  the world: a step ends with a value or with an exception, and the state it leaves
  behind is kept in both cases.
\<close>

type_synonym ('a, 's) prog = "'s \<Rightarrow> (exn + 'a) \<times> 's"

definition returnS :: "'a \<Rightarrow> ('a, 's) prog" where
  "returnS v s = (Inr v, s)"

definition raiseS :: "exn \<Rightarrow> ('a, 's) prog" where
  "raiseS e s = (Inl e, s)"

definition bindS :: "('a, 's) prog \<Rightarrow> ('a \<Rightarrow> ('b, 's) prog) \<Rightarrow> ('b, 's) prog" where
  "bindS m f s = (case m s of (Inl e, s') \<Rightarrow> (Inl e, s') | (Inr v, s') \<Rightarrow> f v s')"

definition call :: "('w \<Rightarrow> (exn + 'a) \<times> 'w) \<Rightarrow> ('a, 'r \<times> 'w) prog" where
  "call c s = (case c (snd s) of (v, w') \<Rightarrow> (v, (fst s, w')))"

definition update :: "('r \<Rightarrow> 'r) \<Rightarrow> (unit, 'r \<times> 'w) prog" where
  "update f s = (Inr (), (f (fst s), snd s))"

definition lift :: "exn + 'a \<Rightarrow> ('a, 's) prog" where
  "lift r s = (r, s)"

definition lookup :: "string \<Rightarrow> 'a option \<Rightarrow> ('a, 's) prog" where
  "lookup k v = (case v of None \<Rightarrow> raiseS (KeyError ([CHR 0x27] @ k @ [CHR 0x27])) | Some x \<Rightarrow> returnS x)"

text \<open>\<^verbatim>\<open>path.replace('.', infix + '.')\<close>.\<close>

definition insert_before_dots :: "string \<Rightarrow> string \<Rightarrow> string" where
  "insert_before_dots infix path = concat (map (\<lambda>c. if c = CHR ''.'' then infix @ ''.'' else [c]) path)"

text \<open>Lines 277 to 284. The literal \<^verbatim>\<open>0.7\<close> is the binary64 number nearest to 7/10.\<close>

definition confidence_summary :: "(rat list \<Rightarrow> rat) \<Rightarrow> rat list \<Rightarrow> confidence_metrics option" where
  "confidence_summary mean cs =
     (if cs = [] then None
      else Some \<lparr>average_confidence = mean cs,
                min_confidence = Min (set cs),
                max_confidence = Max (set cs),
                low_confidence_count = int (length (filter (\<lambda>c. c < fl (7 / 10)) cs))\<rparr>)"

text \<open>Lines 263 to 274.\<close>

definition score_step ::
  "processor \<Rightarrow> string \<Rightarrow> (string, answer) dict \<Rightarrow> (unit, 'info sheet_result \<times> 'w) prog" where
  "score_step self version student_answers =
     (case map_of (answer_keys self) version of
        Some answer_key \<Rightarrow>
          bindS (lift (calculate_subject_scores (subject_config self) student_answers
                         answer_key)) (\<lambda>sc.
            update (\<lambda>r. r\<lparr>score_section := Scored sc\<rparr>))
      | None \<Rightarrow>
          update (\<lambda>r. r\<lparr>score_section := ScoreError (''No answer key for version '' @ version)\<rparr>))"

text \<open>Lines 230 to 243: preprocessing, the processed image on disk, the sheet version.\<close>

definition prepare ::
  "('info, 'w) collaborators \<Rightarrow> string \<Rightarrow> string option
     \<Rightarrow> (image \<times> string, 'info sheet_result \<times> 'w) prog" where
  "prepare env image_path version_arg =
     bindS (call (preprocess_image env image_path)) (\<lambda>(processed_image, info).
     bindS (update (\<lambda>r. r\<lparr>processing_info := Some info\<rparr>)) (\<lambda>_.
     bindS (call (imwrite env (insert_before_dots ''_processed'' image_path)
                    (unannotated processed_image))) (\<lambda>_.
     bindS (update (\<lambda>r. r\<lparr>paths := (paths r)\<lparr>processed :=
                      Some (insert_before_dots ''_processed'' image_path)\<rparr>\<rparr>)) (\<lambda>_.
       case version_arg of
         None \<Rightarrow>
           bindS (update (\<lambda>r. r\<lparr>sheet_version :=
                            Some (detect_sheet_version processed_image)\<rparr>)) (\<lambda>_.
             returnS (processed_image, detect_sheet_version processed_image))
       | Some v \<Rightarrow> returnS (processed_image, v)))))"

text \<open>Lines 245 to 251: detection, and the exception on a sheet without bubbles.\<close>

definition detect ::
  "('info, 'w) collaborators \<Rightarrow> image \<Rightarrow> (bubble_results, 'info sheet_result \<times> 'w) prog" where
  "detect env processed_image =
     bindS (call (detect_and_classify_bubbles env processed_image)) (\<lambda>bubble_results.
     bindS (update (\<lambda>r. r\<lparr>bubble_detection := Some bubble_results\<rparr>)) (\<lambda>_.
     bindS (lookup ''bubbles_detected'' (bubbles_detected bubble_results)) (\<lambda>n.
       if n = 0 then raiseS (ValueError ''No bubbles detected in the image'')
       else returnS bubble_results)))"

text \<open>Lines 253 to 274: the answers of the sheet and their scores.\<close>

definition map_and_score ::
  "('info, 'w) collaborators \<Rightarrow> processor \<Rightarrow> string \<Rightarrow> bubble_results
     \<Rightarrow> (answer_mapping, 'info sheet_result \<times> 'w) prog" where
  "map_and_score env self version bubble_results =
     bindS (lookup ''grid_structure'' (grid_structure bubble_results)) (\<lambda>g.
     bindS (lookup ''classifications'' (classifications bubble_results)) (\<lambda>cls.
     bindS (call (map_bubbles_to_answers env g cls)) (\<lambda>answer_mapping.
     bindS (update (\<lambda>r. r\<lparr>mapped_answers := answers answer_mapping,
                            flagged := flagged_questions answer_mapping\<rparr>)) (\<lambda>_.
     bindS (score_step self version (answers answer_mapping)) (\<lambda>_.
       returnS answer_mapping)))))"

text \<open>Lines 276 to 300: confidence metrics, the overlay on disk, success.\<close>

definition render ::
  "('info, 'w) collaborators \<Rightarrow> string \<Rightarrow> bubble_results \<Rightarrow> answer_mapping
     \<Rightarrow> (unit, 'info sheet_result \<times> 'w) prog" where
  "render env image_path bubble_results answer_mapping =
     bindS (update (\<lambda>r. case confidence_summary (np_mean env)
                               (case confidence_scores bubble_results of
                                  None \<Rightarrow> [] | Some cs \<Rightarrow> cs) of
                          None \<Rightarrow> r
                        | Some m \<Rightarrow> r\<lparr>confidence := Some m\<rparr>)) (\<lambda>_.
     bindS (call (load_image env image_path)) (\<lambda>original_image.
     bindS (lift (create_overlay_image original_image bubble_results
                    (answers answer_mapping))) (\<lambda>overlay_image.
     bindS (call (imwrite env (insert_before_dots ''_overlay'' image_path) overlay_image)) (\<lambda>_.
       update (\<lambda>r. r\<lparr>paths := (paths r)\<lparr>overlay_path :=
                        Some (insert_before_dots ''_overlay'' image_path)\<rparr>,
                      success := True\<rparr>)))))"

text \<open>Lines 228 to 301, the body of the \<^verbatim>\<open>try\<close>.\<close>

definition pipeline ::
  "('info, 'w) collaborators \<Rightarrow> processor \<Rightarrow> string \<Rightarrow> string option
     \<Rightarrow> (unit, 'info sheet_result \<times> 'w) prog" where
  "pipeline env self image_path version_arg =
     bindS (prepare env image_path version_arg) (\<lambda>(processed_image, version).
     bindS (detect env processed_image) (\<lambda>bubble_results.
     bindS (map_and_score env self version bubble_results) (\<lambda>answer_mapping.
       render env image_path bubble_results answer_mapping)))"

definition initial_result :: "string \<Rightarrow> string option \<Rightarrow> string option \<Rightarrow> string \<Rightarrow> 'info sheet_result" where
  "initial_result image_path version_arg sid now =
     \<lparr>success = False, student_id = sid, sheet_version = version_arg,
      processing_info = None, bubble_detection = None, mapped_answers = [],
      score_section = NoScores, flagged = [], confidence = None,
      paths = \<lparr>original = image_path, processed = None, overlay_path = None\<rparr>,
      timestamp = now, error_message = None\<rparr>"

text \<open>
  \<^verbatim>\<open>process_omr_sheet\<close>, lines 205 to 309: the \<^verbatim>\<open>except Exception\<close> clause turns
  an exception of the body into the error message of the result.
\<close>

definition process_omr_sheet ::
  "('info, 'w) collaborators \<Rightarrow> processor \<Rightarrow> string \<Rightarrow> string option \<Rightarrow> string option
     \<Rightarrow> 'w \<Rightarrow> 'info sheet_result \<times> 'w" where
  "process_omr_sheet env self image_path version_arg sid w =
     (case utcnow env w of (now, w0) \<Rightarrow>
        (case pipeline env self image_path version_arg
                (initial_result image_path version_arg sid now, w0) of
           (Inr _, (r, w')) \<Rightarrow> (r, w')
         | (Inl e, (r, w')) \<Rightarrow>
             (r\<lparr>error_message := Some (''Error processing OMR sheet: '' @ str_exn e),
                success := False\<rparr>, w')))"

text \<open>
  Lines 318 and 319: \<^verbatim>\<open>xs[i] if xs and i < len(xs) else None\<close> on an optional list.
\<close>

definition nth_or_none :: "string list option \<Rightarrow> nat \<Rightarrow> string option" where
  "nth_or_none xs i =
     (case xs of None \<Rightarrow> None | Some l \<Rightarrow> if i < length l then Some (l ! i) else None)"

fun batch_from ::
  "('info, 'w) collaborators \<Rightarrow> processor \<Rightarrow> string list option \<Rightarrow> string list option
     \<Rightarrow> nat \<Rightarrow> string list \<Rightarrow> 'w \<Rightarrow> 'info sheet_result list \<times> 'w" where
  "batch_from env self versions ids i [] w = ([], w)"
| "batch_from env self versions ids i (image_path # rest) w =
     (case process_omr_sheet env self image_path (nth_or_none versions i) (nth_or_none ids i) w of
        (r, w1) \<Rightarrow>
          (case batch_from env self versions ids (Suc i) rest w1 of
             (rs, w2) \<Rightarrow> (r # rs, w2)))"

text \<open>\<^verbatim>\<open>batch_process_omr_sheets\<close>, lines 311 to 326.\<close>

definition batch_process_omr_sheets ::
  "('info, 'w) collaborators \<Rightarrow> processor \<Rightarrow> string list \<Rightarrow> string list option
     \<Rightarrow> string list option \<Rightarrow> 'w \<Rightarrow> 'info sheet_result list \<times> 'w" where
  "batch_process_omr_sheets env self image_paths versions ids w =
     batch_from env self versions ids 0 image_paths w"

text \<open>
  A result whose detection entry reports zero bubbles, and a result that carries the
  failure of such a sheet.
\<close>

definition zero_bubbles :: "'info sheet_result \<Rightarrow> bool" where
  "zero_bubbles r =
     (case bubble_detection r of None \<Rightarrow> False | Some br \<Rightarrow> bubbles_detected br = Some 0)"

definition captured_failure :: "'info sheet_result \<Rightarrow> bool" where
  "captured_failure r =
     (\<not> success r \<and>
      error_message r = Some ''Error processing OMR sheet: No bubbles detected in the image'')"

subsection \<open>Collaborators for the worked examples\<close>

text \<open>
  The world counts the files written. The detector finds no bubble as long as at most one
  file has been written, so on the first sheet of a run, and one question with its first
  bubble filled afterwards.
\<close>

definition blank_detection :: bubble_results where
  "blank_detection =
     \<lparr>bubbles_detected = Some 0,
      grid_structure = Some \<lparr>rows = Some [], grid_other_keys = [''total_rows'']\<rparr>,
      classifications = Some [], confidence_scores = Some []\<rparr>"

definition marked_grid :: grid where
  "marked_grid =
     \<lparr>rows = Some [[\<lparr>bubble = [100, 50, 8], index = 0\<rparr>,
                    \<lparr>bubble = [130, 50, 8], index = 1\<rparr>,
                    \<lparr>bubble = [160, 50, 8], index = 2\<rparr>,
                    \<lparr>bubble = [190, 50, 8], index = 3\<rparr>]],
      grid_other_keys = [''total_rows'']\<rparr>"

definition marked_detection :: bubble_results where
  "marked_detection =
     \<lparr>bubbles_detected = Some 4, grid_structure = Some marked_grid,
      classifications = Some [True, False, False, False], confidence_scores = None\<rparr>"

definition demo_mapping :: answer_mapping where
  "demo_mapping = \<lparr>answers = [(''1'', AStr ''A'')], flagged_questions = []\<rparr>"

definition demo_env :: "(unit, nat) collaborators" where
  "demo_env =
     \<lparr>preprocess_image = (\<lambda>path w. (Inr (Gray [[255]], ()), w)),
      load_image = (\<lambda>path w. (Inr (Gray [[255]]), w)),
      detect_and_classify_bubbles = (\<lambda>img w.
        (if w \<le> 1 then Inr blank_detection else Inr marked_detection, w)),
      map_bubbles_to_answers = (\<lambda>g cls w. (Inr demo_mapping, w)),
      imwrite = (\<lambda>path ov w. (Inr (), Suc w)),
      np_mean = (\<lambda>cs. 0),
      utcnow = (\<lambda>w. (''2024-01-01T00:00:00'', w))\<rparr>"

text \<open>
  The rendering steps of lines 288 to 297 all return: the original loads, the overlay is
  created and written.
\<close>

definition rendered ::
  "('info, 'w) collaborators \<Rightarrow> string \<Rightarrow> bubble_results \<Rightarrow> answer_mapping \<Rightarrow> 'w \<Rightarrow> bool" where
  "rendered env image_path br am w =
     (case load_image env image_path w of
        (Inl e, w1) \<Rightarrow> False
      | (Inr original_image, w1) \<Rightarrow>
          (case create_overlay_image original_image br (answers am) of
             Inl e \<Rightarrow> False
           | Inr ov \<Rightarrow>
               (case imwrite env (insert_before_dots ''_overlay'' image_path) ov w1 of
                  (Inl e, w2) \<Rightarrow> False
                | (Inr u, w2) \<Rightarrow> True)))"

text \<open>
  Inputs of the overlay renderer: a grid dict that is present and not empty has its
  \<^verbatim>\<open>"rows"\<close> entry; the grid dict is missing, empty, or has an empty list of rows.
\<close>

definition rows_entry_present :: "bubble_results \<Rightarrow> bool" where
  "rows_entry_present br =
     (case grid_structure br of None \<Rightarrow> True | Some g \<Rightarrow> \<not> grid_truthy g \<or> rows g \<noteq> None)"

definition grid_missing_or_no_rows :: "bubble_results \<Rightarrow> bool" where
  "grid_missing_or_no_rows br =
     (case grid_structure br of None \<Rightarrow> True | Some g \<Rightarrow> \<not> grid_truthy g \<or> rows g = Some [])"

section \<open>Verification\<close>

subsection \<open>Basic facts\<close>

lemma bindE_Inr_iff: "bindE r f = Inr y \<longleftrightarrow> (\<exists>v. r = Inr v \<and> f v = Inr y)"
  by (cases r) (simp_all add: bindE_def)

lemma of_char_upper_char:
  "(of_char (upper_char c) :: nat) =
     (if 97 \<le> (of_char c :: nat) \<and> (of_char c :: nat) \<le> 122 then of_char c - 32 else of_char c)"
proof -
  have "(of_char c :: nat) < 256"
    by (metis of_char_mod_256 mod_less_divisor zero_less_numeral)
  then have "((of_char c :: nat) - 32) mod 256 = of_char c - 32"
    by (intro mod_less) arith
  then show ?thesis by (simp add: upper_char_def)
qed

lemma upper_char_letter:
  assumes "is_letter l" "upper_char c = upper_char l"
  shows "is_letter c"
proof -
  have "(of_char (upper_char c) :: nat) = of_char (upper_char l)" using assms(2) by simp
  then show ?thesis using assms(1)
    by (auto simp: of_char_upper_char is_letter_def split: if_splits)
qed

lemma is_correct_spec:
  assumes "single_letter l"
  shows "is_correct a l = spec_correct a l"
proof (cases a)
  case (AStr s)
  obtain c where l: "l = [c]" "is_letter c"
    using assms by (auto simp: single_letter_def split: list.splits)
  show ?thesis
    using l upper_char_letter [of c]
    by (auto simp: AStr spec_correct_def single_letter_def py_upper_def split: list.splits)
qed (simp_all add: spec_correct_def)

lemma record_question_total_correct:
  "record_question cfg s ok st = Inr st' \<Longrightarrow>
     total_correct st' = total_correct st + (if ok then 1 else 0)"
  by (cases ok) (auto simp: record_question_def bindE_Inr_iff)

lemma update_fresh: "k \<notin> fst ` set al \<Longrightarrow> AList.update k v al = al @ [(k, v)]"
  by (induction al) auto

lemma update_tabulate:
  "distinct xs \<Longrightarrow> s \<in> set xs \<Longrightarrow> AList.update s v (tabulate xs f) = tabulate xs (f(s := v))"
  by (induction xs) (auto simp: tabulate_def)

lemma map_of_tabulate: "map_of (tabulate xs f) s = (if s \<in> set xs then Some (f s) else None)"
  by (induction xs) (auto simp: tabulate_def)

lemma dict_get_tabulate: "s \<in> set xs \<Longrightarrow> dict_get (tabulate xs f) s = Inr (f s)"
  by (simp add: dict_get_def map_of_tabulate)

lemma dict_modify_tabulate:
  "distinct xs \<Longrightarrow> s \<in> set xs \<Longrightarrow>
     dict_modify (tabulate xs f) s g = Inr (tabulate xs (f(s := g (f s))))"
  by (simp add: dict_modify_def dict_get_tabulate bindE_def update_tabulate)

lemma tabulate_cong: "(\<And>x. x \<in> set xs \<Longrightarrow> f x = g x) \<Longrightarrow> tabulate xs f = tabulate xs g"
  by (simp add: tabulate_def)

lemma init_scores_fold:
  "distinct (map fst (subject_scores sc) @ ss) \<Longrightarrow> distinct (map fst (subject_breakdown sc) @ ss) \<Longrightarrow>
   foldl (init_subject cfg) sc ss =
     sc\<lparr>subject_scores := subject_scores sc @ tabulate ss (\<lambda>s. PyInt 0),
        subject_breakdown := subject_breakdown sc @
          tabulate ss (\<lambda>s. \<lparr>correct = 0, total = questions_per_subject cfg, percentage = PyInt 0\<rparr>)\<rparr>"
proof (induction ss arbitrary: sc)
  case Nil
  then show ?case by (simp add: tabulate_def)
next
  case (Cons s ss)
  have 1: "AList.update s v (subject_scores sc) = subject_scores sc @ [(s, v)]" for v
    using Cons.prems(1) by (intro update_fresh) auto
  have 2: "AList.update s v (subject_breakdown sc) = subject_breakdown sc @ [(s, v)]" for v
    using Cons.prems(2) by (intro update_fresh) auto
  define sc1 where "sc1 = init_subject cfg sc s"
  have eq: "sc1 = sc\<lparr>subject_scores := subject_scores sc @ [(s, PyInt 0)],
        subject_breakdown := subject_breakdown sc @
          [(s, \<lparr>correct = 0, total = questions_per_subject cfg, percentage = PyInt 0\<rparr>)]\<rparr>"
    by (simp add: sc1_def init_subject_def 1 2)
  have "foldl (init_subject cfg) sc1 ss =
     sc1\<lparr>subject_scores := subject_scores sc1 @ tabulate ss (\<lambda>s. PyInt 0),
        subject_breakdown := subject_breakdown sc1 @
          tabulate ss (\<lambda>s. \<lparr>correct = 0, total = questions_per_subject cfg, percentage = PyInt 0\<rparr>)\<rparr>"
    using Cons.prems by (intro Cons.IH) (auto simp: eq)
  then show ?case
    by (simp add: sc1_def [symmetric]) (simp add: eq tabulate_def)
qed

lemma init_state:
  "distinct (subjects cfg) \<Longrightarrow>
     \<lparr>acc = init_scores cfg, total_correct = 0, total_questions_seen = 0\<rparr> = tally_state cfg (\<lambda>s. 0) 0 0"
  by (simp add: init_scores_def init_scores_fold empty_scores_def tally_state_def)

lemma py_index_in_set: "py_index xs i = Inr x \<Longrightarrow> x \<in> set xs"
  by (auto simp: py_index_def split: if_splits)

lemma subject_of_question_in_set:
  "subject_of_question cfg q = Inr (Some s) \<Longrightarrow> s \<in> set (subjects cfg)"
  by (auto simp: subject_of_question_def bindE_Inr_iff split: if_splits dest: py_index_in_set)

lemma record_question_tally:
  assumes "distinct (subjects cfg)" "s \<in> set (subjects cfg)"
  shows "record_question cfg s ok (tally_state cfg n tc tq) =
           Inr (tally_state cfg (if ok then n(s := n s + 1) else n) (if ok then tc + 1 else tc) (tq + 1))"
proof (cases ok)
  case True
  then show ?thesis
    using assms
    by (simp add: record_question_def tally_state_def dict_modify_tabulate bindE_def
                  set_total_def add_correct_def)
       (auto intro!: tabulate_cong)
next
  case False
  then show ?thesis
    using assms
    by (simp add: record_question_def tally_state_def dict_modify_tabulate bindE_def
                  set_total_def add_correct_def)
       (auto intro!: tabulate_cong)
qed

lemma score_question_tally:
  assumes "distinct (subjects cfg)"
      and "score_question cfg key item (tally_state cfg n tc tq) = Inr st'"
  shows "st' = tally_state cfg
           (\<lambda>s. n s + (if scored_under cfg key item = Some s \<and> credited key is_correct item
                        then 1 else 0))
           (tc + (if scored_under cfg key item \<noteq> None \<and> credited key is_correct item
                  then 1 else 0))
           (tq + (if scored_under cfg key item \<noteq> None then 1 else 0))"
proof (cases "map_of key (fst item)")
  case None
  then show ?thesis
    using assms(2) by (cases item) (simp add: score_question_def scored_under_def)
next
  case (Some l)
  show ?thesis
  proof (cases "subject_of_question cfg (fst item)")
    case (Inl e)
    then show ?thesis
      using assms(2) Some by (cases item) (simp add: score_question_def bindE_def)
  next
    case (Inr subj)
    show ?thesis
    proof (cases subj)
      case None
      then show ?thesis
        using assms(2) Some Inr
        by (cases item) (simp add: score_question_def bindE_def scored_under_def)
    next
      case (Some s)
      have s: "s \<in> set (subjects cfg)"
        using Inr Some by (simp add: subject_of_question_in_set)
      have su: "scored_under cfg key item = Some s"
        using \<open>map_of key (fst item) = Some l\<close> Inr Some by (simp add: scored_under_def)
      have cr: "credited key is_correct item = is_correct (snd item) l"
        using \<open>map_of key (fst item) = Some l\<close> by (simp add: credited_def)
      have "st' = tally_state cfg
              (if is_correct (snd item) l then n(s := n s + 1) else n)
              (if is_correct (snd item) l then tc + 1 else tc) (tq + 1)"
        using assms(2) \<open>map_of key (fst item) = Some l\<close> Inr Some
              record_question_tally [OF assms(1) s, of "is_correct (snd item) l" n tc tq]
        by (cases item) (simp add: score_question_def bindE_def)
      also have "\<dots> = tally_state cfg
           (\<lambda>s. n s + (if scored_under cfg key item = Some s \<and> credited key is_correct item
                        then 1 else 0))
           (tc + (if scored_under cfg key item \<noteq> None \<and> credited key is_correct item
                  then 1 else 0))
           (tq + (if scored_under cfg key item \<noteq> None then 1 else 0))"
        by (auto simp: su cr fun_eq_iff intro!: arg_cong [where f = "\<lambda>f. tally_state cfg f _ _"])
      finally show ?thesis .
    qed
  qed
qed

lemma score_loop_tally:
  assumes "distinct (subjects cfg)"
  shows "foldE (score_question cfg key) xs (tally_state cfg n tc tq) = Inr st' \<Longrightarrow>
     st' = tally_state cfg (\<lambda>s. n s + correct_in cfg key s xs)
             (tc + num_credited cfg key xs) (tq + num_scored cfg key xs)"
proof (induction xs arbitrary: n tc tq)
  case Nil
  then show ?case by (simp add: correct_in_def num_credited_def num_scored_def)
next
  case (Cons x xs)
  from Cons.prems obtain st1 where
    s1: "score_question cfg key x (tally_state cfg n tc tq) = Inr st1" and
    s2: "foldE (score_question cfg key) xs st1 = Inr st'"
    by (auto simp: bindE_Inr_iff)
  note st1 = score_question_tally [OF assms s1]
  have "st' = tally_state cfg
          (\<lambda>s. (n s + (if scored_under cfg key x = Some s \<and> credited key is_correct x
                        then 1 else 0)) + correct_in cfg key s xs)
          ((tc + (if scored_under cfg key x \<noteq> None \<and> credited key is_correct x
                  then 1 else 0)) + num_credited cfg key xs)
          ((tq + (if scored_under cfg key x \<noteq> None then 1 else 0)) + num_scored cfg key xs)"
    using s2 unfolding st1 by (rule Cons.IH)
  also have "\<dots> = tally_state cfg (\<lambda>s. n s + correct_in cfg key s (x # xs))
             (tc + num_credited cfg key (x # xs)) (tq + num_scored cfg key (x # xs))"
    by (rule arg_cong3 [where f = "tally_state cfg"])
       (auto simp: correct_in_def num_credited_def num_scored_def fun_eq_iff)
  finally show ?case .
qed

lemma finalize_subject_tabulate:
  assumes "distinct xs" "s \<in> set xs" "0 < total (fb s)"
  shows "finalize_subject s (sc\<lparr>subject_scores := tabulate xs fs, subject_breakdown := tabulate xs fb\<rparr>) =
     Inr (sc\<lparr>subject_scores := tabulate xs (fs(s := final_score (fb s))),
             subject_breakdown := tabulate xs (fb(s := (fb s)\<lparr>percentage := final_percentage (fb s)\<rparr>))\<rparr>)"
  using assms
  by (simp add: finalize_subject_def dict_get_tabulate bindE_def py_truediv_def update_tabulate
                final_score_def final_percentage_def)

lemma finalize_loop_tabulate:
  assumes "distinct xs"
  shows "distinct ss \<Longrightarrow> set ss \<subseteq> set xs \<Longrightarrow> (\<forall>s \<in> set ss. 0 < total (fb s)) \<Longrightarrow>
     foldE finalize_subject ss (sc\<lparr>subject_scores := tabulate xs fs, subject_breakdown := tabulate xs fb\<rparr>) =
     Inr (sc\<lparr>subject_scores := tabulate xs (\<lambda>s. if s \<in> set ss then final_score (fb s) else fs s),
             subject_breakdown :=
               tabulate xs (\<lambda>s. if s \<in> set ss then (fb s)\<lparr>percentage := final_percentage (fb s)\<rparr>
                                  else fb s)\<rparr>)"
proof (induction ss arbitrary: fs fb)
  case Nil
  then show ?case by simp
next
  case (Cons s ss)
  let ?fs = "fs(s := final_score (fb s))"
  let ?fb = "fb(s := (fb s)\<lparr>percentage := final_percentage (fb s)\<rparr>)"
  have step: "finalize_subject s (sc\<lparr>subject_scores := tabulate xs fs, subject_breakdown := tabulate xs fb\<rparr>) =
     Inr (sc\<lparr>subject_scores := tabulate xs ?fs, subject_breakdown := tabulate xs ?fb\<rparr>)"
    using Cons.prems assms by (intro finalize_subject_tabulate) auto
  have rest: "foldE finalize_subject ss (sc\<lparr>subject_scores := tabulate xs ?fs, subject_breakdown := tabulate xs ?fb\<rparr>) =
     Inr (sc\<lparr>subject_scores := tabulate xs (\<lambda>x. if x \<in> set ss then final_score (?fb x) else ?fs x),
             subject_breakdown :=
               tabulate xs (\<lambda>x. if x \<in> set ss then (?fb x)\<lparr>percentage := final_percentage (?fb x)\<rparr>
                                  else ?fb x)\<rparr>)"
    using Cons.prems by (intro Cons.IH) auto
  have f1: "(\<lambda>x. if x \<in> set ss then final_score (?fb x) else ?fs x) =
            (\<lambda>x. if x \<in> set (s # ss) then final_score (fb x) else fs x)"
    using Cons.prems(1) by (auto simp: fun_eq_iff)
  have f2: "(\<lambda>x. if x \<in> set ss then (?fb x)\<lparr>percentage := final_percentage (?fb x)\<rparr> else ?fb x) =
            (\<lambda>x. if x \<in> set (s # ss) then (fb x)\<lparr>percentage := final_percentage (fb x)\<rparr> else fb x)"
    using Cons.prems(1) by (auto simp: fun_eq_iff)
  show ?case
    unfolding foldE.simps step using rest unfolding f1 f2 by (simp add: bindE_def)
qed

lemma calculate_subject_scores_tabulate:
  assumes d: "distinct (subjects cfg)" and k: "0 < questions_per_subject cfg"
      and ret: "calculate_subject_scores cfg student_answers answer_key = Inr r"
  shows "r = \<lparr>subject_scores =
                tabulate (subjects cfg)
                  (\<lambda>s. final_score (subject_result cfg (correct_in cfg answer_key s student_answers))),
              total_score =
                py_sum (map (\<lambda>s. final_score (subject_result cfg
                                     (correct_in cfg answer_key s student_answers))) (subjects cfg)),
              correct_answers = num_credited cfg answer_key student_answers,
              total_questions = num_scored cfg answer_key student_answers,
              subject_breakdown =
                tabulate (subjects cfg)
                  (\<lambda>s. \<lparr>correct = correct_in cfg answer_key s student_answers,
                        total = questions_per_subject cfg,
                        percentage = final_percentage (subject_result cfg
                                       (correct_in cfg answer_key s student_answers))\<rparr>)\<rparr>"
proof -
  from ret obtain st sc where
    loop: "foldE (score_question cfg answer_key) student_answers
             \<lparr>acc = init_scores cfg, total_correct = 0, total_questions_seen = 0\<rparr> = Inr st" and
    fin: "foldE finalize_subject (subjects cfg) (acc st) = Inr sc" and
    r: "r = sc\<lparr>correct_answers := total_correct st,
               total_questions := total_questions_seen st,
               total_score := py_sum (map snd (subject_scores sc))\<rparr>"
    by (auto simp: calculate_subject_scores_def bindE_Inr_iff)
  let ?n = "\<lambda>s. correct_in cfg answer_key s student_answers"
  have st: "st = tally_state cfg ?n (num_credited cfg answer_key student_answers)
                   (num_scored cfg answer_key student_answers)"
    using score_loop_tally [OF d loop [unfolded init_state [OF d]]] by simp
  let ?sc0 = "\<lparr>subject_scores = [], total_score = PyInt 0, correct_answers = 0,
                total_questions = 0, subject_breakdown = []\<rparr>"
  have acc: "acc st = ?sc0\<lparr>subject_scores := tabulate (subjects cfg) (\<lambda>s. PyInt (?n s)),
                 subject_breakdown := tabulate (subjects cfg) (\<lambda>s. subject_result cfg (?n s))\<rparr>"
    by (simp add: st tally_state_def subject_result_def)
  have "foldE finalize_subject (subjects cfg) (acc st) =
     Inr (?sc0\<lparr>subject_scores := tabulate (subjects cfg)
                  (\<lambda>s. if s \<in> set (subjects cfg) then final_score (subject_result cfg (?n s))
                       else PyInt (?n s)),
             subject_breakdown :=
               tabulate (subjects cfg)
                 (\<lambda>s. if s \<in> set (subjects cfg)
                      then (subject_result cfg (?n s))\<lparr>percentage := final_percentage (subject_result cfg (?n s))\<rparr>
                      else subject_result cfg (?n s))\<rparr>)"
    unfolding acc using d k by (intro finalize_loop_tabulate) (auto simp: subject_result_def)
  with fin have sc: "sc = ?sc0\<lparr>subject_scores := tabulate (subjects cfg)
                  (\<lambda>s. final_score (subject_result cfg (?n s))),
             subject_breakdown :=
               tabulate (subjects cfg)
                 (\<lambda>s. (subject_result cfg (?n s))\<lparr>percentage := final_percentage (subject_result cfg (?n s))\<rparr>)\<rparr>"
    by (simp cong: tabulate_cong) 
  show ?thesis
    unfolding r sc by (simp add: st tally_state_def tabulate_def subject_result_def comp_def)
qed

subsection \<open>Which answers count as correct\<close>

lemma score_question_total_correct:
  "score_question cfg key item st = Inr st' \<Longrightarrow>
     total_correct st' = total_correct st +
       (if scored_under cfg key item \<noteq> None \<and> credited key is_correct item then 1 else 0)"
  by (cases item)
     (auto simp: score_question_def scored_under_def credited_def bindE_Inr_iff
           dest!: record_question_total_correct split: option.splits if_splits)

lemma score_loop_total_correct:
  "foldE (score_question cfg key) xs st = Inr st' \<Longrightarrow>
     total_correct st' = total_correct st + num_credited cfg key xs"
proof (induction xs arbitrary: st)
  case Nil
  then show ?case by (simp add: num_credited_def)
next
  case (Cons x xs)
  from Cons.prems obtain st1 where
    s1: "score_question cfg key x st = Inr st1" and
    s2: "foldE (score_question cfg key) xs st1 = Inr st'"
    by (auto simp: bindE_Inr_iff)
  show ?case
    using Cons.IH [OF s2] score_question_total_correct [OF s1]
    by (simp add: num_credited_def)
qed

lemma credited_spec:
  assumes "list_all single_letter (map snd answer_key)"
  shows "credited answer_key is_correct item = credited answer_key spec_correct item"
proof (cases "map_of answer_key (fst item)")
  case None
  then show ?thesis by (simp add: credited_def)
next
  case (Some l)
  then have "(fst item, l) \<in> set answer_key" by (rule map_of_SomeD)
  then have "single_letter l" using assms by (force simp: list_all_iff)
  then show ?thesis using Some by (simp add: credited_def is_correct_spec)
qed

text \<open>
  Claim C1. Whatever the student answers and the answer key, as long as the key holds
  single letters: the number of correct answers the scorer reports is the number of scored
  questions whose answer is a single letter equal to the key's letter up to case. An answer
  \<^verbatim>\<open>None\<close> or a list of letters never satisfies \<^const>\<open>spec_correct\<close>, so it is never
  counted.
\<close>

theorem scorer_credits_only_letter_matches:
  assumes "list_all single_letter (map snd answer_key)"
      and "calculate_subject_scores cfg student_answers answer_key = Inr r"
  shows "correct_answers r =
           int (length (filter (\<lambda>item. scored_under cfg answer_key item \<noteq> None
                                       \<and> credited answer_key spec_correct item) student_answers))"
proof -
  from assms(2) obtain st sc where
    loop: "foldE (score_question cfg answer_key) student_answers
             \<lparr>acc = init_scores cfg, total_correct = 0, total_questions_seen = 0\<rparr> = Inr st" and
    r: "r = sc\<lparr>correct_answers := total_correct st,
               total_questions := total_questions_seen st,
               total_score := py_sum (map snd (subject_scores sc))\<rparr>"
    by (auto simp: calculate_subject_scores_def bindE_Inr_iff)
  have "correct_answers r = num_credited cfg answer_key student_answers"
    using score_loop_total_correct [OF loop] by (simp add: r)
  then show ?thesis
    by (simp add: num_credited_def credited_spec [OF assms(1)])
qed

lemma example_run:
  "calculate_subject_scores default_subject_config
     [(''1'', AStr ''a''), (''2'', ANone), (''3'', AList [''A'', ''B'']),
      (''24'', AStr ''B''), (''45'', AStr ''D'')]
     [(''1'', ''A''), (''2'', ''A''), (''3'', ''A''), (''24'', ''C''), (''45'', ''D'')] =
   Inr \<lparr>subject_scores =
          [(''Mathematics'', PyFloat 1), (''Physics'', PyFloat 0),
           (''Chemistry'', PyFloat 1), (''Biology'', PyFloat 0),
           (''English'', PyFloat 0)],
        total_score = PyFloat 2, correct_answers = 2, total_questions = 5,
        subject_breakdown =
          [(''Mathematics'', \<lparr>correct = 1, total = 20, percentage = PyFloat 5\<rparr>),
           (''Physics'', \<lparr>correct = 0, total = 20, percentage = PyFloat 0\<rparr>),
           (''Chemistry'', \<lparr>correct = 1, total = 20, percentage = PyFloat 5\<rparr>),
           (''Biology'', \<lparr>correct = 0, total = 20, percentage = PyFloat 0\<rparr>),
           (''English'', \<lparr>correct = 0, total = 20, percentage = PyFloat 0\<rparr>)]\<rparr>"
  by code_simp

theorem scorer_credits_only_letter_matches_witness:
  "list_all single_letter
     (map snd [(''1'', ''A''), (''2'', ''A''), (''3'', ''A''), (''24'', ''C''), (''45'', ''D'')]) \<and>
   calculate_subject_scores default_subject_config
     [(''1'', AStr ''a''), (''2'', ANone), (''3'', AList [''A'', ''B'']),
      (''24'', AStr ''B''), (''45'', AStr ''D'')]
     [(''1'', ''A''), (''2'', ''A''), (''3'', ''A''), (''24'', ''C''), (''45'', ''D'')] =
   Inr \<lparr>subject_scores =
          [(''Mathematics'', PyFloat 1), (''Physics'', PyFloat 0),
           (''Chemistry'', PyFloat 1), (''Biology'', PyFloat 0),
           (''English'', PyFloat 0)],
        total_score = PyFloat 2, correct_answers = 2, total_questions = 5,
        subject_breakdown =
          [(''Mathematics'', \<lparr>correct = 1, total = 20, percentage = PyFloat 5\<rparr>),
           (''Physics'', \<lparr>correct = 0, total = 20, percentage = PyFloat 0\<rparr>),
           (''Chemistry'', \<lparr>correct = 1, total = 20, percentage = PyFloat 5\<rparr>),
           (''Biology'', \<lparr>correct = 0, total = 20, percentage = PyFloat 0\<rparr>),
           (''English'', \<lparr>correct = 0, total = 20, percentage = PyFloat 0\<rparr>)]\<rparr> \<and>
   int (length (filter (\<lambda>item. scored_under default_subject_config
                          [(''1'', ''A''), (''2'', ''A''), (''3'', ''A''), (''24'', ''C''), (''45'', ''D'')]
                          item \<noteq> None
                        \<and> credited [(''1'', ''A''), (''2'', ''A''), (''3'', ''A''), (''24'', ''C''), (''45'', ''D'')]
                            spec_correct item)
          [(''1'', AStr ''a''), (''2'', ANone), (''3'', AList [''A'', ''B'']),
           (''24'', AStr ''B''), (''45'', AStr ''D'')])) = 2"
proof -
  have k: "list_all single_letter
     (map snd [(''1'', ''A''), (''2'', ''A''), (''3'', ''A''), (''24'', ''C''), (''45'', ''D'')])"
    by (simp add: single_letter_def is_letter_def)
  show ?thesis
    using k example_run scorer_credits_only_letter_matches [OF k example_run] by simp
qed

subsection \<open>Decimal numerals: \<^verbatim>\<open>int(str(i)) == i\<close>\<close>

lemma of_char_digit_char: "n < 10 \<Longrightarrow> (of_char (digit_char n) :: nat) = 48 + n"
  by (simp add: digit_char_def)

lemma isdigit_digit_char: "n < 10 \<Longrightarrow> isdigit (digit_char n)"
  by (simp add: isdigit_def of_char_digit_char)

lemma digit_val_digit_char: "n < 10 \<Longrightarrow> digit_val (digit_char n) = int n"
  by (simp add: digit_val_def of_char_digit_char)

lemma isdigit_not_space: "isdigit c \<Longrightarrow> \<not> isspace c"
  by (auto simp: isdigit_def isspace_def)

lemma isdigit_not_sign: "isdigit c \<Longrightarrow> c \<noteq> CHR ''-'' \<and> c \<noteq> CHR ''+'' \<and> c \<noteq> CHR ''Q''"
  by (auto simp: isdigit_def)

lemma str_nat_digits: "list_all isdigit (str_nat n)"
proof (induction n rule: str_nat.induct)
  case (1 n)
  show ?case
  proof (cases "n < 10")
    case True
    then show ?thesis by (simp add: str_nat.simps [of n] isdigit_digit_char)
  next
    case False
    then show ?thesis
      using "1.IH" by (simp add: str_nat.simps [of n] isdigit_digit_char)
  qed
qed

lemma str_nat_nonempty: "str_nat n \<noteq> []"
  by (subst str_nat.simps) simp

lemma digits_from_dec_val:
  "list_all isdigit ds \<Longrightarrow> digits_from a ds = Some (dec_val a ds)"
  by (induction a ds rule: digits_from.induct) (simp_all add: dec_val_def)

lemma unsigned_literal_dec_val:
  "list_all isdigit ds \<Longrightarrow> ds \<noteq> [] \<Longrightarrow> unsigned_literal ds = Some (dec_val 0 ds)"
  by (cases ds) (simp_all add: unsigned_literal_def digits_from_dec_val, simp add: dec_val_def)

lemma dec_val_str_nat: "dec_val 0 (str_nat n) = int n"
proof (induction n rule: str_nat.induct)
  case (1 n)
  show ?case
  proof (cases "n < 10")
    case True
    then show ?thesis by (simp add: str_nat.simps [of n] dec_val_def digit_val_digit_char)
  next
    case False
    then have "dec_val 0 (str_nat n) = dec_val 0 (str_nat (n div 10)) * 10 + int (n mod 10)"
      by (simp add: str_nat.simps [of n] dec_val_def digit_val_digit_char)
    also have "\<dots> = int (n div 10) * 10 + int (n mod 10)"
      using False "1.IH" by simp
    also have "\<dots> = int n"
      by (simp add: zdiv_int zmod_int)
    finally show ?thesis .
  qed
qed

lemma unsigned_literal_str_nat: "unsigned_literal (str_nat n) = Some (int n)"
  by (simp add: unsigned_literal_dec_val str_nat_digits str_nat_nonempty dec_val_str_nat)

lemma strip_id:
  assumes "s \<noteq> []" "\<not> isspace (hd s)" "\<not> isspace (last s)"
  shows "strip s = s"
proof -
  have 1: "dropWhile isspace s = s"
    using assms(1,2) by (cases s) simp_all
  obtain a as where r: "rev s = a # as"
    using assms(1) by (cases "rev s") auto
  have "a = last s"
    using r hd_rev [of s] by simp
  then have 2: "dropWhile isspace (rev s) = rev s"
    using assms(3) by (simp add: r)
  show ?thesis by (simp add: strip_def 1 2)
qed

lemma str_nat_hd_last: "isdigit (hd (str_nat n)) \<and> isdigit (last (str_nat n))"
  using str_nat_digits [of n] str_nat_nonempty [of n]
  by (auto simp: list_all_iff)

lemma strip_str_nat: "strip (str_nat n) = str_nat n"
  using str_nat_hd_last [of n] by (intro strip_id) (auto simp: str_nat_nonempty isdigit_not_space)

lemma strip_minus_str_nat: "strip (CHR ''-'' # str_nat n) = CHR ''-'' # str_nat n"
proof -
  have "\<not> isspace (last (str_nat n))"
    using str_nat_hd_last [of n] by (simp add: isdigit_not_space)
  moreover have "\<not> isspace CHR ''-''"
    by (simp add: isspace_def)
  ultimately show ?thesis
    by (intro strip_id) (simp_all add: str_nat_nonempty)
qed

lemma py_int_str_nat: "py_int (str_nat n) = Some (int n)"
proof -
  obtain c cs where s: "str_nat n = c # cs"
    using str_nat_nonempty [of n] by (cases "str_nat n") auto
  then have "isdigit c"
    using str_nat_digits [of n] by simp
  then have c: "c \<noteq> CHR ''-''" "c \<noteq> CHR ''+''"
    using isdigit_not_sign by auto
  have "py_int (str_nat n) = unsigned_literal (str_nat n)"
    unfolding py_int_def strip_str_nat using c by (simp add: s)
  then show ?thesis
    by (simp add: unsigned_literal_str_nat)
qed

lemma py_int_py_str: "py_int (py_str i) = Some i"
proof (cases "i < 0")
  case True
  then show ?thesis
    by (simp add: py_str_def py_int_def strip_minus_str_nat unsigned_literal_str_nat)
next
  case False
  then show ?thesis by (simp add: py_str_def py_int_str_nat)
qed

lemma py_str_inj: "py_str i = py_str j \<Longrightarrow> i = j"
  by (metis py_int_py_str option.inject)

lemma inj_py_str: "inj py_str"
  by (rule injI) (rule py_str_inj)

lemma delete_Q_str_nat: "delete_char CHR ''Q'' (str_nat n) = str_nat n"
  using str_nat_digits [of n] isdigit_not_sign
  by (auto simp: delete_char_def list_all_iff intro!: filter_True)

lemma delete_Q_py_str: "delete_char CHR ''Q'' (py_str i) = py_str i"
  using delete_Q_str_nat by (simp add: py_str_def) (simp add: delete_char_def)

subsection \<open>The verdict of \<^verbatim>\<open>validate_answer_key\<close>\<close>

lemma set_update_subset: "x \<in> set (AList.update k v al) \<Longrightarrow> x = (k, v) \<or> x \<in> set al"
  by (induction al) (auto split: if_splits)

lemma count_answer_positive:
  assumes "\<forall>e \<in> set counts. 1 \<le> snd e"
  shows "\<forall>e \<in> set (count_answer counts a). 1 \<le> snd e"
proof
  fix e assume e: "e \<in> set (count_answer counts a)"
  show "1 \<le> snd e"
  proof (cases "a \<in> set valid_answers")
    case False
    then show ?thesis using e assms by (simp add: count_answer_def)
  next
    case True
    then have "e = (a, (case map_of counts a of None \<Rightarrow> 0 | Some c \<Rightarrow> c) + 1) \<or> e \<in> set counts"
      using e by (auto simp: count_answer_def dest: set_update_subset)
    moreover have "0 \<le> (case map_of counts a of None \<Rightarrow> 0 | Some c \<Rightarrow> c)"
      using assms by (auto split: option.splits dest!: map_of_SomeD)
    ultimately show ?thesis using assms by auto
  qed
qed

lemma answer_counts_positive:
  "\<forall>e \<in> set counts. 1 \<le> snd e \<Longrightarrow> \<forall>e \<in> set (foldl count_answer counts vs). 1 \<le> snd e"
proof (induction vs arbitrary: counts)
  case Nil
  then show ?case by simp
next
  case (Cons a vs)
  have "\<forall>e \<in> set (count_answer counts a). 1 \<le> snd e"
    using Cons.prems by (rule count_answer_positive)
  then show ?case
    using Cons.IH [of "count_answer counts a"] by simp
qed

lemma sum_list_at_least_length:
  "\<forall>x \<in> set xs. (1::int) \<le> x \<Longrightarrow> int (length xs) \<le> sum_list xs"
  by (induction xs) auto

lemma sum_list_positive:
  "xs \<noteq> [] \<Longrightarrow> \<forall>x \<in> set xs. (1::int) \<le> x \<Longrightarrow> 0 < sum_list xs"
  using sum_list_at_least_length [of xs] by (cases xs) auto

lemma collect_warnings_returns:
  "total_valid \<noteq> 0 \<Longrightarrow> \<exists>ws. collect_warnings total_valid counts = Inr ws"
proof (induction counts)
  case Nil
  then show ?case by simp
next
  case (Cons e counts)
  obtain ws where ws: "collect_warnings total_valid counts = Inr ws"
    using Cons by auto
  have "\<exists>w. skew_warning total_valid e = Inr w"
    using Cons.prems by (cases e) (simp add: skew_warning_def py_truediv_def bindE_def Let_def)
  then show ?case by (auto simp: ws bindE_def)
qed

lemma validate_answer_key_returns:
  "\<exists>warns. validate_answer_key answer_key tq =
     Inr \<lparr>valid = (key_errors answer_key tq = []), errors = key_errors answer_key tq,
          warnings = warns,
          answer_distribution = foldl count_answer [] (map snd answer_key),
          key_total_questions = int (length answer_key)\<rparr>"
proof (cases "foldl count_answer [] (map snd answer_key) = []")
  case True
  then show ?thesis by (simp add: validate_answer_key_def bindE_def Let_def)
next
  case False
  have "\<forall>e \<in> set (foldl count_answer [] (map snd answer_key)). 1 \<le> snd e"
    by (rule answer_counts_positive) simp
  then have "0 < sum_list (map snd (foldl count_answer [] (map snd answer_key)))"
    using False by (intro sum_list_positive) auto
  then obtain ws where
    "collect_warnings (sum_list (map snd (foldl count_answer [] (map snd answer_key))))
       (foldl count_answer [] (map snd answer_key)) = Inr ws"
    using collect_warnings_returns by (metis less_irrefl)
  then show ?thesis using False by (simp add: validate_answer_key_def bindE_def Let_def)
qed

lemma check_entry_ok:
  "check_entry tq (q, a) = [] \<longleftrightarrow>
     (\<exists>i. py_int q = Some i \<and> 1 \<le> i \<and> i \<le> tq) \<and> a \<in> set valid_answers"
  by (auto simp: check_entry_def split: option.splits)

lemma missing_questions_empty:
  "missing_questions answer_key tq = [] \<longleftrightarrow> set (map py_str [1..tq]) \<subseteq> set (map fst answer_key)"
  by (auto simp: missing_questions_def filter_empty_conv)

lemma key_errors_empty:
  "key_errors answer_key tq = [] \<longleftrightarrow>
     int (length answer_key) = tq \<and> (\<forall>e \<in> set answer_key. check_entry tq e = []) \<and>
     missing_questions answer_key tq = []"
  by (auto simp: key_errors_def)

lemma card_expected: "0 \<le> tq \<Longrightarrow> card (py_str ` {1..tq}) = nat tq"
  by (simp add: card_image inj_py_str [THEN inj_on_subset])

lemma key_errors_empty_iff:
  assumes d: "distinct (map fst answer_key)" and n: "0 \<le> tq"
  shows "key_errors answer_key tq = [] \<longleftrightarrow>
     set (map fst answer_key) = set (map py_str [1..tq]) \<and>
     list_all (\<lambda>a. a \<in> set valid_answers) (map snd answer_key)"
proof
  assume e: "key_errors answer_key tq = []"
  then have len: "int (length answer_key) = tq"
    and ent: "\<forall>e \<in> set answer_key. check_entry tq e = []"
    and sub: "set (map py_str [1..tq]) \<subseteq> set (map fst answer_key)"
    by (simp_all add: key_errors_empty missing_questions_empty)
  have "card (set (map fst answer_key)) = length answer_key"
    using d by (metis distinct_card length_map)
  then have "card (set (map fst answer_key)) = card (set (map py_str [1..tq]))"
    using len n by (simp add: card_expected)
  then have "set (map py_str [1..tq]) = set (map fst answer_key)"
    using sub by (intro card_subset_eq) auto
  moreover have "list_all (\<lambda>a. a \<in> set valid_answers) (map snd answer_key)"
    using ent by (auto simp: list_all_iff check_entry_ok)
  ultimately show "set (map fst answer_key) = set (map py_str [1..tq]) \<and>
     list_all (\<lambda>a. a \<in> set valid_answers) (map snd answer_key)" by simp
next
  assume a: "set (map fst answer_key) = set (map py_str [1..tq]) \<and>
     list_all (\<lambda>a. a \<in> set valid_answers) (map snd answer_key)"
  have "length answer_key = card (set (map fst answer_key))"
    using d by (metis distinct_card length_map)
  then have len: "int (length answer_key) = tq"
    using a n by (simp add: card_expected)
  have ent: "check_entry tq e = []" if "e \<in> set answer_key" for e
  proof -
    obtain q l where e: "e = (q, l)" by (cases e)
    have "q \<in> set (map py_str [1..tq])" using that a e by force
    then obtain i where "q = py_str i" "1 \<le> i" "i \<le> tq" by auto
    moreover have "l \<in> set valid_answers" using that a e by (force simp: list_all_iff)
    ultimately show ?thesis by (simp add: e check_entry_ok py_int_py_str)
  qed
  show "key_errors answer_key tq = []"
    using len ent a by (simp add: key_errors_empty missing_questions_empty)
qed

text \<open>
  Claim C8. For every answer key (a dict, so without duplicate keys) and every question
  count \<open>tq \<ge> 0\<close>, \<^verbatim>\<open>validate_answer_key\<close> returns, and its verdict is
  \<^verbatim>\<open>valid\<close> exactly when the keys are the strings \<^verbatim>\<open>"1"\<close> to \<^verbatim>\<open>str(tq)\<close> and
  every value is one of \<^verbatim>\<open>A\<close>, \<^verbatim>\<open>B\<close>, \<^verbatim>\<open>C\<close>, \<^verbatim>\<open>D\<close>. The answer
  distribution does not occur in the condition: it only feeds the warnings.
\<close>

theorem valid_iff_exact_keys_and_letters:
  assumes "distinct (map fst answer_key)" and "0 \<le> tq"
  shows "\<exists>v. validate_answer_key answer_key tq = Inr v \<and>
           valid v = (set (map fst answer_key) = set (map py_str [1..tq]) \<and>
                      list_all (\<lambda>a. a \<in> set valid_answers) (map snd answer_key))"
proof -
  obtain warns where
    "validate_answer_key answer_key tq =
     Inr \<lparr>valid = (key_errors answer_key tq = []), errors = key_errors answer_key tq,
          warnings = warns,
          answer_distribution = foldl count_answer [] (map snd answer_key),
          key_total_questions = int (length answer_key)\<rparr>"
    using validate_answer_key_returns by blast
  then show ?thesis
    by (simp add: key_errors_empty_iff [OF assms])
qed

lemma skewed_key_is_valid:
  "validate_answer_key [(''1'', ''A''), (''2'', ''A'')] 2 =
     Inr \<lparr>valid = True, errors = [], warnings = [UnusuallyHigh ''A'' (PyFloat 100)],
          answer_distribution = [(''A'', 2)], key_total_questions = 2\<rparr>"
  by code_simp

theorem valid_iff_exact_keys_and_letters_witness:
  "distinct (map fst [(''1'', ''A''), (''2'', ''A'')]) \<and> (0::int) \<le> 2 \<and>
   (\<exists>v. validate_answer_key [(''1'', ''A''), (''2'', ''A'')] 2 = Inr v \<and>
      valid v = (set (map fst [(''1'', ''A''), (''2'', ''A'')]) = set (map py_str [1..2]) \<and>
                 list_all (\<lambda>a. a \<in> set valid_answers) (map snd [(''1'', ''A''), (''2'', ''A'')]))) \<and>
   validate_answer_key [(''1'', ''A''), (''2'', ''A'')] 2 =
     Inr \<lparr>valid = True, errors = [], warnings = [UnusuallyHigh ''A'' (PyFloat 100)],
          answer_distribution = [(''A'', 2)], key_total_questions = 2\<rparr>"
proof -
  have d: "distinct (map fst [(''1'', ''A''), (''2'', ''A'')])" by simp
  have n: "(0::int) \<le> 2" by simp
  show ?thesis
    using d n valid_iff_exact_keys_and_letters [OF d n] skewed_key_is_valid by blast
qed

subsection \<open>Flagged questions and the confidence threshold\<close>

lemma int_keys_Inr_iff:
  "(\<exists>ks. int_keys xs = Inr ks) \<longleftrightarrow> list_all (\<lambda>s. py_int s \<noteq> None) xs"
  by (induction xs) (auto simp: bindE_def int_of_str_def split: option.splits sum.splits)

lemma int_keys_length: "int_keys xs = Inr ks \<Longrightarrow> length ks = length xs"
  by (induction xs arbitrary: ks) (auto simp: bindE_Inr_iff)

lemma sorted_by_int_length: "sorted_by_int xs = Inr ys \<Longrightarrow> length ys = length xs"
  by (auto simp: sorted_by_int_def bindE_Inr_iff dest: int_keys_length)

lemma sorted_by_int_returns:
  "list_all (\<lambda>s. py_int s \<noteq> None) xs \<Longrightarrow> \<exists>ys. sorted_by_int xs = Inr ys"
  using int_keys_Inr_iff [of xs] by (auto simp: sorted_by_int_def bindE_def)

lemma sorted_by_int_parses:
  "sorted_by_int xs = Inr ys \<Longrightarrow> list_all (\<lambda>s. py_int s \<noteq> None) xs"
  using int_keys_Inr_iff [of xs] by (auto simp: sorted_by_int_def bindE_Inr_iff)

lemma flagged_list_mono:
  assumes "t1 \<le> t2"
  shows "set (flagged_list sa cs t1) \<subseteq> set (flagged_list sa cs t2)"
  using assms by (auto simp: flagged_list_def)

text \<open>
  Claim C7. For fixed student answers and confidence scores and two thresholds
  \<open>t1 \<le> t2\<close>: when the call at \<open>t2\<close> returns its list, the call at \<open>t1\<close>
  returns one too, and it is not longer. (A call raises only when a flagged key of the
  confidence scores is not an integer literal, see \<open>identify_flagged_questions_returns\<close>.)
\<close>

theorem flagged_count_monotone:
  assumes "t1 \<le> t2"
      and "identify_flagged_questions student_answers confidences t2 = Inr ys"
  shows "\<exists>xs. identify_flagged_questions student_answers confidences t1 = Inr xs
              \<and> length xs \<le> length ys"
proof -
  let ?f1 = "flagged_list student_answers confidences t1"
  let ?f2 = "flagged_list student_answers confidences t2"
  have sub: "set ?f1 \<subseteq> set ?f2" using assms(1) by (rule flagged_list_mono)
  have ret2: "sorted_by_int (remdups ?f2) = Inr ys"
    using assms(2) by (simp add: identify_flagged_questions_def)
  then have "list_all (\<lambda>s. py_int s \<noteq> None) (remdups ?f2)"
    by (rule sorted_by_int_parses)
  then have "list_all (\<lambda>s. py_int s \<noteq> None) (remdups ?f1)"
    using sub by (auto simp: list_all_iff)
  then obtain xs where ret1: "sorted_by_int (remdups ?f1) = Inr xs"
    using sorted_by_int_returns by blast
  have "length xs = card (set ?f1)"
    using sorted_by_int_length [OF ret1] by (simp add: length_remdups_card_conv)
  also have "\<dots> \<le> card (set ?f2)"
    using sub by (intro card_mono) auto
  also have "\<dots> = length ys"
    using sorted_by_int_length [OF ret2] by (simp add: length_remdups_card_conv)
  finally show ?thesis
    using ret1 by (simp add: identify_flagged_questions_def)
qed

lemma identify_flagged_questions_returns:
  assumes "list_all (\<lambda>s. py_int s \<noteq> None) (map fst confidences)"
  shows "\<exists>xs. identify_flagged_questions student_answers confidences t = Inr xs"
proof -
  have "list_all (\<lambda>s. py_int s \<noteq> None)
          (remdups (flagged_list student_answers confidences t))"
    using assms by (auto simp: list_all_iff flagged_list_def py_int_py_str)
  then show ?thesis
    unfolding identify_flagged_questions_def by (rule sorted_by_int_returns)
qed

lemma flagged_example:
  "identify_flagged_questions [] [(''101'', 1 / 2)] (8 / 10) = Inr (map py_str [1..101])"
  by code_simp

theorem flagged_count_monotone_witness:
  "(3 / 10 :: rat) \<le> 8 / 10 \<and>
   identify_flagged_questions [] [(''101'', 1 / 2)] (8 / 10) = Inr (map py_str [1..101]) \<and>
   (\<exists>xs. identify_flagged_questions [] [(''101'', 1 / 2)] (3 / 10) = Inr xs
         \<and> length xs \<le> length (map py_str [1..101]))"
proof -
  have t: "(3 / 10 :: rat) \<le> 8 / 10" by simp
  show ?thesis
    using t flagged_example flagged_count_monotone [OF t flagged_example] by blast
qed

subsection \<open>When the scorer returns\<close>

lemma default_subjects:
  "subjects default_subject_config =
     [''Mathematics'', ''Physics'', ''Chemistry'', ''Biology'', ''English'']"
  "questions_per_subject default_subject_config = 20"
  by (simp_all add: default_subject_config_def)

lemma default_subjects_distinct:
  "distinct (subjects default_subject_config)" "length (subjects default_subject_config) = 5"
  by (simp_all add: default_subject_config_def)

lemma default_positive: "0 < questions_per_subject default_subject_config"
  by (simp add: default_subjects)

lemma subject_of_numbered_question:
  assumes "question_number q = Some n" "1 \<le> n" "n \<le> 100"
  shows "subject_of_question default_subject_config q =
           Inr (Some (subjects default_subject_config ! nat ((n - 1) div 20)))"
proof -
  have "0 \<le> (n - 1) div 20" "(n - 1) div 20 < 5"
    using assms(2,3) by presburger+
  then show ?thesis
    using assms(1)
    by (simp add: subject_of_question_def int_of_str_def question_number_def bindE_def
                  py_floordiv_def py_index_def default_subjects default_subjects_distinct)
qed

lemma score_question_returns:
  assumes "distinct (subjects cfg)"
      and "map_of key (fst item) = None \<or> (\<exists>x. subject_of_question cfg (fst item) = Inr x)"
  shows "\<exists>st'. score_question cfg key item (tally_state cfg n tc tq) = Inr st'"
proof (cases "map_of key (fst item)")
  case None
  then show ?thesis by (cases item) (simp add: score_question_def)
next
  case (Some l)
  then obtain x where x: "subject_of_question cfg (fst item) = Inr x"
    using assms(2) by auto
  show ?thesis
  proof (cases x)
    case None
    then show ?thesis using Some x by (cases item) (simp add: score_question_def bindE_def)
  next
    case (Some s)
    then have "s \<in> set (subjects cfg)"
      using x by (simp add: subject_of_question_in_set)
    then show ?thesis
      using \<open>map_of key (fst item) = Some l\<close> x Some
            record_question_tally [OF assms(1), of s "is_correct (snd item) l" n tc tq]
      by (cases item) (simp add: score_question_def bindE_def)
  qed
qed

lemma scorable_iff:
  "scorable cfg key item \<longleftrightarrow>
     map_of key (fst item) = None \<or> (\<exists>x. subject_of_question cfg (fst item) = Inr x)"
  by (auto simp: scorable_def split: option.splits sum.splits)

lemma score_loop_returns:
  assumes "distinct (subjects cfg)"
  shows "list_all (scorable cfg key) xs \<Longrightarrow>
         \<exists>st'. foldE (score_question cfg key) xs (tally_state cfg n tc tq) = Inr st'"
proof (induction xs arbitrary: n tc tq)
  case Nil
  then show ?case by simp
next
  case (Cons x xs)
  then obtain st1 where s1: "score_question cfg key x (tally_state cfg n tc tq) = Inr st1"
    using score_question_returns [OF assms, of key x n tc tq] by (auto simp: scorable_iff)
  obtain n' tc' tq' where "st1 = tally_state cfg n' tc' tq'"
    using score_question_tally [OF assms s1] by blast
  then show ?case
    using Cons s1 by (simp add: bindE_def)
qed

lemma calculate_subject_scores_returns:
  assumes "distinct (subjects cfg)" "0 < questions_per_subject cfg"
      and "list_all (scorable cfg answer_key) student_answers"
  shows "\<exists>r. calculate_subject_scores cfg student_answers answer_key = Inr r"
proof -
  obtain st where loop: "foldE (score_question cfg answer_key) student_answers
      (tally_state cfg (\<lambda>s. 0) 0 0) = Inr st"
    using score_loop_returns [OF assms(1,3)] by blast
  obtain n tc tq where st: "st = tally_state cfg n tc tq"
    using score_loop_tally [OF assms(1) loop] by blast
  let ?sc0 = "\<lparr>subject_scores = [], total_score = PyInt 0, correct_answers = 0,
                total_questions = 0, subject_breakdown = []\<rparr>"
  have acc: "acc st = ?sc0\<lparr>subject_scores := tabulate (subjects cfg) (\<lambda>s. PyInt (n s)),
                 subject_breakdown := tabulate (subjects cfg) (\<lambda>s. subject_result cfg (n s))\<rparr>"
    by (simp add: st tally_state_def subject_result_def)
  have "foldE finalize_subject (subjects cfg) (acc st) =
     Inr (?sc0\<lparr>subject_scores := tabulate (subjects cfg)
                  (\<lambda>s. if s \<in> set (subjects cfg) then final_score (subject_result cfg (n s))
                       else PyInt (n s)),
             subject_breakdown :=
               tabulate (subjects cfg)
                 (\<lambda>s. if s \<in> set (subjects cfg)
                      then (subject_result cfg (n s))\<lparr>percentage := final_percentage (subject_result cfg (n s))\<rparr>
                      else subject_result cfg (n s))\<rparr>)"
    unfolding acc using assms(1,2) by (intro finalize_loop_tabulate) (auto simp: subject_result_def)
  then show ?thesis
    using loop by (simp add: calculate_subject_scores_def init_state [OF assms(1)] bindE_def)
qed

lemma calculate_subject_scores_raises:
  assumes "distinct (subjects cfg)"
      and "\<not> list_all (scorable cfg answer_key) student_answers"
  shows "\<exists>e. calculate_subject_scores cfg student_answers answer_key = Inl e"
proof -
  have "\<exists>e. foldE (score_question cfg answer_key) xs (tally_state cfg n tc tq) = Inl e"
    if "\<not> list_all (scorable cfg answer_key) xs" for xs n tc tq
    using that
  proof (induction xs arbitrary: n tc tq)
    case Nil
    then show ?case by simp
  next
    case (Cons x xs)
    show ?case
    proof (cases "score_question cfg answer_key x (tally_state cfg n tc tq)")
      case (Inl e)
      then show ?thesis by (simp add: bindE_def)
    next
      case (Inr st1)
      obtain n' tc' tq' where st1: "st1 = tally_state cfg n' tc' tq'"
        using score_question_tally [OF assms(1) Inr] by blast
      have "scorable cfg answer_key x"
        using Inr
        by (cases x) (auto simp: scorable_def score_question_def bindE_def split: option.splits sum.splits)
      then have "\<not> list_all (scorable cfg answer_key) xs"
        using Cons.prems by simp
      then show ?thesis
        using Cons.IH [of n' tc' tq'] Inr st1 by (simp add: bindE_def)
    qed
  qed
  from this [OF assms(2), of "\<lambda>s. 0" 0 0] obtain e where
    "foldE (score_question cfg answer_key) student_answers (tally_state cfg (\<lambda>s. 0) 0 0) = Inl e"
    by blast
  then show ?thesis
    by (simp add: calculate_subject_scores_def init_state [OF assms(1)] bindE_def)
qed

text \<open>
  For a question numbered 1 or more the subject is the one at index \<open>(n - 1) div 20\<close>, and
  a number above 100 is skipped. With such keys the scorer returns.
\<close>

lemma subject_of_positive_question:
  assumes "question_number q = Some n" "1 \<le> n"
  shows "subject_of_question default_subject_config q =
           Inr (if n \<le> 100 then Some (subjects default_subject_config ! nat ((n - 1) div 20))
                else None)"
proof (cases "n \<le> 100")
  case True
  then show ?thesis using assms by (simp add: subject_of_numbered_question)
next
  case False
  then have "5 \<le> (n - 1) div 20" by presburger
  then show ?thesis
    using assms(1) False
    by (simp add: subject_of_question_def int_of_str_def question_number_def bindE_def
                  py_floordiv_def default_subjects default_subjects_distinct)
qed

lemma positive_keys_scorable:
  assumes "list_all (\<lambda>item. map_of answer_key (fst item) = None
              \<or> (case question_number (fst item) of None \<Rightarrow> False | Some n \<Rightarrow> 1 \<le> n))
            student_answers"
  shows "\<exists>r. calculate_subject_scores default_subject_config student_answers answer_key = Inr r"
proof -
  have "scorable default_subject_config answer_key item" if "item \<in> set student_answers" for item
  proof (cases "map_of answer_key (fst item)")
    case None
    then show ?thesis by (simp add: scorable_iff)
  next
    case (Some a)
    with assms that obtain n where "question_number (fst item) = Some n" "1 \<le> n"
      by (auto simp: list_all_iff split: option.splits)
    then show ?thesis
      by (simp add: scorable_iff subject_of_positive_question)
  qed
  then have "list_all (scorable default_subject_config answer_key) student_answers"
    by (simp add: list_all_iff)
  then show ?thesis
    by (rule calculate_subject_scores_returns [OF default_subjects_distinct(1) default_positive])
qed

subsection \<open>Sheets that answer questions 1 to 100\<close>

lemma length_filter_key:
  assumes "distinct (map f xs)"
  shows "length (filter (\<lambda>x. f x \<in> A) xs) = card (A \<inter> f ` set xs)"
proof -
  have "length (filter (\<lambda>x. f x \<in> A) xs) = length (filter (\<lambda>y. y \<in> A) (map f xs))"
    by (simp add: filter_map comp_def)
  also have "\<dots> = card ({y. y \<in> A} \<inter> set (map f xs))"
    using assms by (rule distinct_length_filter)
  finally show ?thesis by simp
qed

lemma full_sheet_numbers:
  assumes "full_sheet student" "item \<in> set student"
  shows "\<exists>n. question_number (fst item) = Some n \<and> 1 \<le> n \<and> n \<le> 100"
proof -
  have "question_number (fst item) \<in> set (map (question_number \<circ> fst) student)"
    using assms(2) by force
  then show ?thesis using assms(1) by (auto simp: full_sheet_def)
qed

lemma full_sheet_scorable:
  assumes "full_sheet student"
  shows "list_all (scorable default_subject_config key) student"
  unfolding list_all_iff
proof
  fix item assume "item \<in> set student"
  then obtain n where "question_number (fst item) = Some n" "1 \<le> n" "n \<le> 100"
    using full_sheet_numbers [OF assms] by blast
  then show "scorable default_subject_config key item"
    by (simp add: scorable_iff subject_of_numbered_question)
qed

lemma block_div: "1 \<le> n \<Longrightarrow> nat ((n - 1) div 20) = i \<longleftrightarrow> n \<in> block i"
  unfolding block_def by (auto simp: nat_eq_iff)

lemma full_sheet_scored_under:
  assumes "full_sheet student" "item \<in> set student" "i < 5"
  shows "scored_under default_subject_config key item = Some (subjects default_subject_config ! i)
           \<longleftrightarrow> map_of key (fst item) \<noteq> None \<and> question_number (fst item) \<in> Some ` block i"
proof -
  obtain n where n: "question_number (fst item) = Some n" "1 \<le> n" "n \<le> 100"
    using full_sheet_numbers [OF assms(1,2)] by blast
  have "(n - 1) div 20 < 5" "0 \<le> (n - 1) div 20" using n(2,3) by presburger+
  then have lt: "nat ((n - 1) div 20) < 5" by simp
  have "subjects default_subject_config ! nat ((n - 1) div 20) = subjects default_subject_config ! i
          \<longleftrightarrow> nat ((n - 1) div 20) = i"
    using lt assms(3) by (intro nth_eq_iff_index_eq) (simp_all add: default_subjects_distinct)
  then show ?thesis
    using n block_div [of n i]
    by (auto simp: scored_under_def subject_of_numbered_question split: option.splits)
qed

lemma card_block: "i < 5 \<Longrightarrow> card (Some ` block i \<inter> set (map Some [1..100])) = 20"
proof -
  assume "i < 5"
  then have "block i \<subseteq> {1..100}" by (auto simp: block_def)
  then have "Some ` block i \<inter> set (map Some [1..100]) = Some ` block i" by auto
  moreover have "card (Some ` block i) = card (block i)" by (simp add: card_image)
  ultimately show ?thesis by (simp add: block_def)
qed

lemma full_sheet_block_size:
  assumes "full_sheet student" "i < 5"
  shows "length (filter (\<lambda>item. question_number (fst item) \<in> Some ` block i) student) = 20"
proof -
  have d: "distinct (map (question_number \<circ> fst) student)"
    and s: "(question_number \<circ> fst) ` set student = set (map Some [1..100])"
    using assms(1) unfolding full_sheet_def by auto
  have "length (filter (\<lambda>item. (question_number \<circ> fst) item \<in> Some ` block i) student) =
          card (Some ` block i \<inter> (question_number \<circ> fst) ` set student)"
    using d by (rule length_filter_key)
  then show ?thesis
    unfolding s using card_block [OF assms(2)] by simp
qed

lemma full_sheet_correct_in_le:
  assumes "full_sheet student" "i < 5"
  shows "correct_in default_subject_config key (subjects default_subject_config ! i) student \<le> 20"
        "0 \<le> correct_in default_subject_config key (subjects default_subject_config ! i) student"
proof -
  have "length (filter (\<lambda>item. scored_under default_subject_config key item =
                    Some (subjects default_subject_config ! i) \<and> credited key is_correct item) student)
        \<le> length (filter (\<lambda>item. question_number (fst item) \<in> Some ` block i) student)"
  proof -
    have "filter (\<lambda>item. scored_under default_subject_config key item =
                    Some (subjects default_subject_config ! i) \<and> credited key is_correct item) student
        = filter (\<lambda>item. map_of key (fst item) \<noteq> None \<and> credited key is_correct item)
            (filter (\<lambda>item. question_number (fst item) \<in> Some ` block i) student)"
      using full_sheet_scored_under [OF assms(1) _ assms(2)]
      by (auto intro!: filter_cong)
    then show ?thesis by (simp del: filter_filter)
  qed
  then show "correct_in default_subject_config key (subjects default_subject_config ! i) student \<le> 20"
    using full_sheet_block_size [OF assms] by (simp add: correct_in_def)
  show "0 \<le> correct_in default_subject_config key (subjects default_subject_config ! i) student"
    by (simp add: correct_in_def)
qed

lemma full_sheet_all_correct:
  assumes "full_sheet student" "i < 5" "list_all (credited key is_correct) student"
  shows "correct_in default_subject_config key (subjects default_subject_config ! i) student = 20"
proof -
  have cr: "map_of key (fst item) \<noteq> None \<and> credited key is_correct item" if "item \<in> set student" for item
    using assms(3) that by (auto simp: list_all_iff credited_def split: option.splits)
  have "filter (\<lambda>item. scored_under default_subject_config key item =
                    Some (subjects default_subject_config ! i) \<and> credited key is_correct item) student
        = filter (\<lambda>item. question_number (fst item) \<in> Some ` block i) student"
    using full_sheet_scored_under [OF assms(1) _ assms(2)] cr
    by (auto intro!: filter_cong)
  then show ?thesis
    using full_sheet_block_size [OF assms(1,2)] by (simp add: correct_in_def)
qed

subsection \<open>Subject scores and the total\<close>

lemma final_score_cong:
  "correct b = correct b' \<Longrightarrow> total b = total b' \<Longrightarrow> final_score b = final_score b'"
  by (simp add: final_score_def)

lemma full_marks: 
  "py_sum (map (\<lambda>s. final_score (subject_result default_subject_config 20))
             (subjects default_subject_config)) = PyFloat 100"
  by code_simp

lemma question_number_py_str: "question_number (py_str i) = Some i"
  by (simp add: question_number_def delete_Q_py_str py_int_py_str)

lemma map_of_tabulated_keys:
  "inj f \<Longrightarrow> i \<in> set xs \<Longrightarrow> map_of (map (\<lambda>i. (f i, g i)) xs) (f i) = Some (g i)"
  by (induction xs) (auto dest: injD)

lemma numbered_sheet_full: "full_sheet (map (\<lambda>i. (py_str i, a i)) [1..100])"
  by (simp add: full_sheet_def comp_def question_number_py_str distinct_map)

lemma tabulate_nth:
  "tabulate xs f = map (\<lambda>i. (xs ! i, f (xs ! i))) [0..<length xs]"
proof -
  have "map (\<lambda>i. (xs ! i, f (xs ! i))) [0..<length xs] =
        map (\<lambda>x. (x, f x)) (map (\<lambda>i. xs ! i) [0..<length xs])"
    by (simp add: comp_def)
  then show ?thesis by (simp add: tabulate_def map_nth)
qed

lemma numbered_from_one_returns:
  assumes "numbered_from_one answer_key student_answers"
  shows "\<exists>r. calculate_subject_scores default_subject_config student_answers answer_key = Inr r"
proof (rule positive_keys_scorable)
  show "list_all (\<lambda>item. map_of answer_key (fst item) = None
              \<or> (case question_number (fst item) of None \<Rightarrow> False | Some n \<Rightarrow> 1 \<le> n))
            student_answers"
    using assms by (auto simp: numbered_from_one_def list_all_iff)
qed

lemma numbered_scored_under:
  assumes "numbered_from_one answer_key student_answers" "item \<in> set student_answers" "i < 5"
      and "map_of answer_key (fst item) \<noteq> None"
  shows "scored_under default_subject_config answer_key item = Some (subjects default_subject_config ! i)
           \<longleftrightarrow> question_number (fst item) \<in> Some ` block i"
proof -
  obtain n where n: "question_number (fst item) = Some n" "1 \<le> n"
    using assms(1,2,4) by (auto simp: numbered_from_one_def list_all_iff split: option.splits)
  show ?thesis
  proof (cases "n \<le> 100")
    case True
    have "(n - 1) div 20 < 5" "0 \<le> (n - 1) div 20" using n(2) True by presburger+
    then have lt: "nat ((n - 1) div 20) < 5" by simp
    have "subjects default_subject_config ! nat ((n - 1) div 20) = subjects default_subject_config ! i
            \<longleftrightarrow> nat ((n - 1) div 20) = i"
      using lt assms(3) by (intro nth_eq_iff_index_eq) (simp_all add: default_subjects_distinct)
    then show ?thesis
      using n True assms(4) block_div [of n i]
      by (auto simp: scored_under_def subject_of_positive_question split: option.splits)
  next
    case False
    then have "n \<notin> block i" using assms(3) by (auto simp: block_def)
    then show ?thesis
      using n False assms(4)
      by (auto simp: scored_under_def subject_of_positive_question split: option.splits)
  qed
qed

lemma numbered_correct_in:
  assumes "numbered_from_one answer_key student_answers" "i < 5"
  shows "correct_in default_subject_config answer_key (subjects default_subject_config ! i)
           student_answers = correct_in_block answer_key i student_answers"
proof -
  have "filter (\<lambda>item. scored_under default_subject_config answer_key item =
                    Some (subjects default_subject_config ! i) \<and> credited answer_key is_correct item)
          student_answers
        = filter (\<lambda>item. question_number (fst item) \<in> Some ` block i
                          \<and> credited answer_key is_correct item) student_answers"
  proof (rule filter_cong [OF refl])
    fix item assume item: "item \<in> set student_answers"
    show "(scored_under default_subject_config answer_key item =
             Some (subjects default_subject_config ! i) \<and> credited answer_key is_correct item)
          = (question_number (fst item) \<in> Some ` block i \<and> credited answer_key is_correct item)"
    proof (cases "map_of answer_key (fst item)")
      case None
      then show ?thesis by (simp add: credited_def)
    next
      case (Some l)
      then show ?thesis
        using numbered_scored_under [OF assms(1) item assms(2)] by simp
    qed
  qed
  then show ?thesis by (simp add: correct_in_def correct_in_block_def)
qed

lemma twenty_of_twenty:
  "final_score (subject_result default_subject_config 20) = PyFloat 20"
  by code_simp

text \<open>
  Claim C2. Whenever the scorer returns under the default configuration, the result lists
  the five subjects, each with question total 20 and with the score
  \<^verbatim>\<open>(correct / total) * 20\<close> of its breakdown (\<^const>\<open>final_score\<close>), and the total
  score is the sum of the subject scores. On a sheet numbered from 1 the scorer returns, the
  correct count of the subject with index \<open>i\<close> is the number of correct answers among the
  questions \<open>20 * i + 1\<close> to \<open>20 * i + 20\<close> of the sheet, and the subject's score is
  that count divided by 20 and multiplied by 20, in floating point. If moreover the sheet
  answers each of the questions 1 to 100 once and correctly, every subject scores the float
  20 and the total score is the float 100.
\<close>

theorem subject_score_scaled_total_summed:
  "(calculate_subject_scores default_subject_config student_answers answer_key = Inr r \<longrightarrow>
      map fst (subject_breakdown r) = subjects default_subject_config \<and>
      list_all (\<lambda>b. total b = 20) (map snd (subject_breakdown r)) \<and>
      subject_scores r = map (\<lambda>(s, b). (s, final_score b)) (subject_breakdown r) \<and>
      total_score r = py_sum (map snd (subject_scores r))) \<and>
   (numbered_from_one answer_key student_answers \<longrightarrow>
      (\<exists>r. calculate_subject_scores default_subject_config student_answers answer_key = Inr r \<and>
           map (\<lambda>(s, b). (s, correct b)) (subject_breakdown r) =
             map (\<lambda>i. (subjects default_subject_config ! i,
                       correct_in_block answer_key i student_answers)) [0..<5] \<and>
           subject_scores r =
             map (\<lambda>i. (subjects default_subject_config ! i,
                       final_score (subject_result default_subject_config
                                      (correct_in_block answer_key i student_answers)))) [0..<5] \<and>
           (full_sheet student_answers \<and>
            list_all (credited answer_key is_correct) student_answers \<longrightarrow>
              map snd (subject_scores r) = replicate 5 (PyFloat 20) \<and>
              total_score r = PyFloat 100)))"
proof (intro conjI impI)
  let ?cfg = default_subject_config
  let ?c = "\<lambda>s. correct_in ?cfg answer_key s student_answers"
  assume ret: "calculate_subject_scores ?cfg student_answers answer_key = Inr r"
  note r = calculate_subject_scores_tabulate [OF default_subjects_distinct(1) default_positive ret]
  have ss: "subject_scores r = tabulate (subjects ?cfg) (\<lambda>s. final_score (subject_result ?cfg (?c s)))"
    by (subst r) simp
  have sb: "subject_breakdown r = tabulate (subjects ?cfg)
         (\<lambda>s. \<lparr>correct = ?c s, total = questions_per_subject ?cfg,
               percentage = final_percentage (subject_result ?cfg (?c s))\<rparr>)"
    by (subst r) simp
  have ts: "total_score r = py_sum (map (\<lambda>s. final_score (subject_result ?cfg (?c s))) (subjects ?cfg))"
    by (subst r) simp
  show "map fst (subject_breakdown r) = subjects ?cfg"
    by (simp add: sb tabulate_def comp_def)
  show "list_all (\<lambda>b. total b = 20) (map snd (subject_breakdown r))"
    by (simp add: sb tabulate_def list_all_iff default_subjects(2))
  show "subject_scores r = map (\<lambda>(s, b). (s, final_score b)) (subject_breakdown r)"
    by (simp add: ss sb tabulate_def subject_result_def default_subjects(2) final_score_def)
  show "total_score r = py_sum (map snd (subject_scores r))"
    by (simp add: ts ss tabulate_def comp_def)
next
  let ?cfg = default_subject_config
  let ?c = "\<lambda>s. correct_in ?cfg answer_key s student_answers"
  let ?b = "\<lambda>i. correct_in_block answer_key i student_answers"
  assume nu: "numbered_from_one answer_key student_answers"
  then obtain r where ret: "calculate_subject_scores ?cfg student_answers answer_key = Inr r"
    using numbered_from_one_returns by blast
  note r = calculate_subject_scores_tabulate [OF default_subjects_distinct(1) default_positive ret]
  have ss: "subject_scores r = tabulate (subjects ?cfg) (\<lambda>s. final_score (subject_result ?cfg (?c s)))"
    by (subst r) simp
  have sb: "subject_breakdown r = tabulate (subjects ?cfg)
         (\<lambda>s. \<lparr>correct = ?c s, total = questions_per_subject ?cfg,
               percentage = final_percentage (subject_result ?cfg (?c s))\<rparr>)"
    by (subst r) simp
  have "total_score r = py_sum (map (\<lambda>s. final_score (subject_result ?cfg (?c s))) (subjects ?cfg))"
    by (subst r) simp
  then have ts: "total_score r = py_sum (map snd (subject_scores r))"
    by (simp add: ss tabulate_def comp_def)
  have cb: "?c (subjects ?cfg ! i) = ?b i" if "i < 5" for i
    using numbered_correct_in [OF nu that] .
  have counts: "map (\<lambda>(s, b). (s, correct b)) (subject_breakdown r) =
             map (\<lambda>i. (subjects ?cfg ! i, ?b i)) [0..<5]"
    unfolding sb tabulate_nth default_subjects_distinct(2)
    by (simp add: cb)
  have sc: "subject_scores r =
             map (\<lambda>i. (subjects ?cfg ! i, final_score (subject_result ?cfg (?b i)))) [0..<5]"
    unfolding ss tabulate_nth default_subjects_distinct(2)
    by (simp add: cb)
  have full: "map snd (subject_scores r) = replicate 5 (PyFloat 20) \<and> total_score r = PyFloat 100"
    if a: "full_sheet student_answers \<and> list_all (credited answer_key is_correct) student_answers"
  proof -
    have "?b i = 20" if "i < 5" for i
      using full_sheet_all_correct [of student_answers i answer_key] a that cb [OF that] by simp
    then have m: "map snd (subject_scores r) = replicate 5 (PyFloat 20)"
      unfolding sc by (simp add: twenty_of_twenty numeral_eq_Suc upt_conv_Cons del: upt_Suc)
    have "total_score r = PyFloat 100"
      unfolding ts m using full_marks
      by (simp add: default_subjects numeral_eq_Suc twenty_of_twenty)
    with m show ?thesis by simp
  qed
  show "\<exists>r. calculate_subject_scores ?cfg student_answers answer_key = Inr r \<and>
           map (\<lambda>(s, b). (s, correct b)) (subject_breakdown r) =
             map (\<lambda>i. (subjects ?cfg ! i, ?b i)) [0..<5] \<and>
           subject_scores r =
             map (\<lambda>i. (subjects ?cfg ! i, final_score (subject_result ?cfg (?b i)))) [0..<5] \<and>
           (full_sheet student_answers \<and>
            list_all (credited answer_key is_correct) student_answers \<longrightarrow>
              map snd (subject_scores r) = replicate 5 (PyFloat 20) \<and>
              total_score r = PyFloat 100)"
    using ret counts sc full by blast
qed

lemma all_a_sheet_correct:
  "list_all (credited (map (\<lambda>i. (py_str i, ''A'')) [1..100]) is_correct)
     (map (\<lambda>i. (py_str i, AStr ''a'')) [1..100])"
proof -
  have ic: "is_correct (AStr ''a'') ''A''"
    by code_simp
  have "credited (map (\<lambda>i. (py_str i, ''A'')) [1..100]) is_correct (py_str i, AStr ''a'')"
    if "i \<in> set [1..100]" for i
    using map_of_tabulated_keys [OF inj_py_str that, of "\<lambda>i. ''A''"] ic
    by (simp add: credited_def del: is_correct.simps)
  then show ?thesis by (auto simp: list_all_iff)
qed

lemma short_sheet_numbered:
  "numbered_from_one
     [(''1'', ''A''), (''2'', ''A''), (''3'', ''A''), (''24'', ''C''), (''45'', ''D'')]
     [(''1'', AStr ''a''), (''2'', ANone), (''3'', AList [''A'', ''B'']),
      (''24'', AStr ''B''), (''45'', AStr ''D'')]"
  by code_simp

lemma short_sheet_counts:
  "map (\<lambda>i. correct_in_block
          [(''1'', ''A''), (''2'', ''A''), (''3'', ''A''), (''24'', ''C''), (''45'', ''D'')] i
          [(''1'', AStr ''a''), (''2'', ANone), (''3'', AList [''A'', ''B'']),
           (''24'', AStr ''B''), (''45'', AStr ''D'')]) [0, 1, 2, 3, 4] = [1, 0, 1, 0, 0]"
  by code_simp

lemma length_str_nat: "length (str_nat n) \<le> Suc n"
proof (induction n rule: str_nat.induct)
  case (1 n)
  show ?case
  proof (cases "n < 10")
    case True
    then show ?thesis by (subst str_nat.simps) simp
  next
    case False
    then have "length (str_nat (n div 10)) \<le> Suc (n div 10)" using 1 by simp
    moreover have "Suc (Suc (n div 10)) \<le> Suc n" using False by simp
    ultimately show ?thesis using False by (subst str_nat.simps) simp
  qed
qed

lemma length_py_str: "0 \<le> i \<Longrightarrow> length (py_str i) \<le> Suc (nat i)"
  by (simp add: py_str_def length_str_nat)

lemma numbered_keys_from_one:
  "numbered_from_one answer_key (map (\<lambda>i. (py_str i, a i)) [1..100])"
proof -
  have "length (py_str i) \<le> 4300 \<and> 1 \<le> i" if "i \<in> set [1..100]" for i
  proof -
    have i: "1 \<le> i" "i \<le> 100" using that by simp_all
    then have "Suc (nat i) \<le> 4300" by arith
    moreover have "length (py_str i) \<le> Suc (nat i)" using i by (intro length_py_str) simp
    ultimately show ?thesis using i by simp
  qed
  then show ?thesis
    by (simp add: numbered_from_one_def list_all_iff question_number_py_str)
qed

theorem subject_score_scaled_total_summed_witness:
  "numbered_from_one
     [(''1'', ''A''), (''2'', ''A''), (''3'', ''A''), (''24'', ''C''), (''45'', ''D'')]
     [(''1'', AStr ''a''), (''2'', ANone), (''3'', AList [''A'', ''B'']),
      (''24'', AStr ''B''), (''45'', AStr ''D'')] \<and>
   map (\<lambda>i. correct_in_block
          [(''1'', ''A''), (''2'', ''A''), (''3'', ''A''), (''24'', ''C''), (''45'', ''D'')] i
          [(''1'', AStr ''a''), (''2'', ANone), (''3'', AList [''A'', ''B'']),
           (''24'', AStr ''B''), (''45'', AStr ''D'')]) [0, 1, 2, 3, 4] = [1, 0, 1, 0, 0] \<and>
   (\<exists>r. calculate_subject_scores default_subject_config
          [(''1'', AStr ''a''), (''2'', ANone), (''3'', AList [''A'', ''B'']),
           (''24'', AStr ''B''), (''45'', AStr ''D'')]
          [(''1'', ''A''), (''2'', ''A''), (''3'', ''A''), (''24'', ''C''), (''45'', ''D'')] = Inr r \<and>
        map (\<lambda>(s, b). (s, correct b)) (subject_breakdown r) =
          [(''Mathematics'', 1), (''Physics'', 0), (''Chemistry'', 1), (''Biology'', 0),
           (''English'', 0)] \<and>
        subject_scores r =
          [(''Mathematics'', PyFloat 1), (''Physics'', PyFloat 0), (''Chemistry'', PyFloat 1),
           (''Biology'', PyFloat 0), (''English'', PyFloat 0)] \<and>
        list_all (\<lambda>b. total b = 20) (map snd (subject_breakdown r)) \<and>
        total_score r = py_sum (map snd (subject_scores r)) \<and>
        total_score r = PyFloat 2) \<and>
   numbered_from_one (map (\<lambda>i. (py_str i, ''A'')) [1..100])
     (map (\<lambda>i. (py_str i, AStr ''a'')) [1..100]) \<and>
   full_sheet (map (\<lambda>i. (py_str i, AStr ''a'')) [1..100]) \<and>
   list_all (credited (map (\<lambda>i. (py_str i, ''A'')) [1..100]) is_correct)
     (map (\<lambda>i. (py_str i, AStr ''a'')) [1..100]) \<and>
   (\<exists>r. calculate_subject_scores default_subject_config
          (map (\<lambda>i. (py_str i, AStr ''a'')) [1..100])
          (map (\<lambda>i. (py_str i, ''A'')) [1..100]) = Inr r \<and>
        map snd (subject_scores r) = replicate 5 (PyFloat 20) \<and>
        total_score r = PyFloat 100)"
proof -
  let ?K = "[(''1'', ''A''), (''2'', ''A''), (''3'', ''A''), (''24'', ''C''), (''45'', ''D'')]"
  let ?S = "[(''1'', AStr ''a''), (''2'', ANone), (''3'', AList [''A'', ''B'']),
             (''24'', AStr ''B''), (''45'', AStr ''D'')]"
  let ?K100 = "map (\<lambda>i. (py_str i, ''A'')) [1..100]"
  let ?S100 = "map (\<lambda>i. (py_str i, AStr ''a'')) [1..100]"
  note t = subject_score_scaled_total_summed
  have n5: "numbered_from_one ?K ?S"
    by (rule short_sheet_numbered)
  note c5 = short_sheet_counts
  have first: "\<exists>r. calculate_subject_scores default_subject_config ?S ?K = Inr r \<and>
        map (\<lambda>(s, b). (s, correct b)) (subject_breakdown r) =
          [(''Mathematics'', 1), (''Physics'', 0), (''Chemistry'', 1), (''Biology'', 0),
           (''English'', 0)] \<and>
        subject_scores r =
          [(''Mathematics'', PyFloat 1), (''Physics'', PyFloat 0), (''Chemistry'', PyFloat 1),
           (''Biology'', PyFloat 0), (''English'', PyFloat 0)] \<and>
        list_all (\<lambda>b. total b = 20) (map snd (subject_breakdown r)) \<and>
        total_score r = py_sum (map snd (subject_scores r)) \<and>
        total_score r = PyFloat 2"
    using t [of ?S ?K, THEN conjunct1, rule_format, OF example_run] example_run
    by simp
  have n100: "numbered_from_one ?K100 ?S100"
    by (rule numbered_keys_from_one)
  have f: "full_sheet ?S100"
    by (rule numbered_sheet_full)
  note c = all_a_sheet_correct
  have second: "\<exists>r. calculate_subject_scores default_subject_config ?S100 ?K100 = Inr r \<and>
        map snd (subject_scores r) = replicate 5 (PyFloat 20) \<and>
        total_score r = PyFloat 100"
    using t [of ?S100 ?K100, THEN conjunct2, rule_format, OF n100] f c
    by blast
  show ?thesis
    using n5 c5 first n100 f c second by blast
qed

subsection \<open>Floating point on small integers\<close>

text \<open>
  An integer below \<open>2 ^ 53\<close> is a binary64 number, so rounding leaves it alone; and for
  a count \<open>c\<close> from 0 to 20 the rounded product of the rounded quotient \<open>c / 20\<close> with
  20 is \<open>c\<close> again.
\<close>

lemma round_half_even_of_int: "round_half_even (of_int m) = m"
  by (simp add: round_half_even_def)

lemma binary_exponent_of_int_le:
  assumes "\<bar>n\<bar> < 2 ^ 53"
  shows "binary_exponent (of_int n) \<le> 52"
proof -
  have "\<bar>of_int n :: rat\<bar> = of_int \<bar>n\<bar>" by simp
  then have q: "quotient_of \<bar>of_int n :: rat\<bar> = (\<bar>n\<bar>, 1)"
    by (simp only: quotient_of_rat_of_int)
  have b: "bitlen \<bar>n\<bar> \<le> 53"
    using assms by (simp add: bitlen_le_iff_power)
  have "bitlen 1 = 1"
    by (simp add: bitlen_alt_def)
  then show ?thesis
    unfolding binary_exponent_def q using b by (simp add: Let_def)
qed

lemma fl_of_int:
  assumes "\<bar>n\<bar> < 2 ^ 53"
  shows "fl (of_int n) = of_int n"
proof (cases "n = 0")
  case True
  then show ?thesis by (simp add: fl_def)
next
  case False
  define e where "e = max (binary_exponent (of_int n)) (- 1022)"
  define k where "k = nat (52 - e)"
  have "e \<le> 52"
    using binary_exponent_of_int_le [OF assms] by (simp add: e_def)
  then have "e - 52 = - int k"
    by (simp add: k_def)
  then have u: "power_int (2 :: rat) (e - 52) = 1 / 2 ^ k"
    by (simp add: power_int_minus_divide)
  have "fl (of_int n) = of_int (round_half_even (of_int n / (1 / 2 ^ k))) * (1 / 2 ^ k)"
    using False by (simp add: fl_def Let_def e_def [symmetric] u)
  also have "of_int n / (1 / 2 ^ k) = (of_int (n * 2 ^ k) :: rat)"
    by simp
  also have "round_half_even (of_int (n * 2 ^ k)) = n * 2 ^ k"
    by (rule round_half_even_of_int)
  also have "of_int (n * 2 ^ k) * (1 / 2 ^ k) = (of_int n :: rat)"
    by simp
  finally show ?thesis .
qed

lemma py_add_small_ints:
  assumes "\<bar>a + b\<bar> < 2 ^ 53"
  shows "py_add (PyFloat (of_int a)) (PyFloat (of_int b)) = PyFloat (of_int (a + b))"
  using fl_of_int [OF assms] by simp

lemma foldl_py_add_ints:
  assumes "\<forall>c \<in> set cs. 0 \<le> c" "0 \<le> a" "a + sum_list cs < 2 ^ 53"
  shows "foldl py_add (PyFloat (of_int a)) (map (\<lambda>c. PyFloat (of_int c)) cs) =
           PyFloat (of_int (a + sum_list cs))"
  using assms
proof (induction cs arbitrary: a)
  case Nil
  then show ?case by simp
next
  case (Cons c cs)
  have nn: "0 \<le> sum_list cs" using Cons.prems(1) by (simp add: sum_list_nonneg)
  have "\<bar>a + c\<bar> < 2 ^ 53" using Cons.prems nn by simp
  then have "py_add (PyFloat (of_int a)) (PyFloat (of_int c)) = PyFloat (of_int (a + c))"
    by (rule py_add_small_ints)
  moreover have "foldl py_add (PyFloat (of_int (a + c))) (map (\<lambda>c. PyFloat (of_int c)) cs) =
           PyFloat (of_int ((a + c) + sum_list cs))"
    using Cons.prems by (intro Cons.IH) (auto simp: add.assoc)
  ultimately show ?case by (simp add: add.assoc)
qed

lemma py_sum_ints:
  assumes "\<forall>c \<in> set cs. 0 \<le> c" "sum_list cs < 2 ^ 53" "cs \<noteq> []"
  shows "py_sum (map (\<lambda>c. PyFloat (of_int c)) cs) = PyFloat (of_int (sum_list cs))"
proof -
  obtain c cs' where cs: "cs = c # cs'" using assms(3) by (cases cs) auto
  have nn: "0 \<le> sum_list cs'" "0 \<le> c" using assms(1) cs by (simp_all add: sum_list_nonneg)
  have "\<bar>c\<bar> < 2 ^ 53" using assms(2) nn cs by simp
  then have "py_add (PyInt 0) (PyFloat (of_int c)) = PyFloat (of_int c)"
    using fl_of_int [of c] by (simp add: fl_def)
  then show ?thesis
    using foldl_py_add_ints [of cs' c] assms nn cs by (simp add: py_sum_def)
qed

lemma scaled_back_exactly:
  "list_all (\<lambda>c. final_score (subject_result default_subject_config c) = PyFloat (of_int c))
     [0, 1, 2, 3, 4, 5, 6, 7, 8, 9, 10, 11, 12, 13, 14, 15, 16, 17, 18, 19, 20]"
  by code_simp

lemma final_score_exact:
  assumes "0 \<le> c" "c \<le> 20"
  shows "final_score (subject_result default_subject_config c) = PyFloat (of_int c)"
proof -
  have "c \<in> set [0, 1, 2, 3, 4, 5, 6, 7, 8, 9, 10, 11, 12, 13, 14, 15, 16, 17, 18, 19, 20]"
    using assms by simp presburger
  then show ?thesis
    using scaled_back_exactly unfolding list_all_iff by blast
qed

subsection \<open>The two scorers agree on the total\<close>

lemma tally_question_fst:
  "fst (tally_question s k p q) = fst p + (if answers_agree s k q then 1 else 0)"
  by (cases p) (auto simp: tally_question_def answers_agree_def split: option.splits)

lemma tally_questions_fst:
  "fst (foldl (tally_question s k) p qs) = fst p + int (length (filter (answers_agree s k) qs))"
  by (induction qs arbitrary: p) (simp_all add: tally_question_fst)

lemma percentage_of_returns: "\<exists>p. percentage_of a b = Inr p"
  by (simp add: percentage_of_def py_truediv_def bindE_def)

lemma tally_subject_returns:
  "\<exists>d' tq'. tally_subject s k qps (i, subject) (d, tc, tq) =
      Inr (d', tc + subject_matches s k qps i, tq')"
proof -
  obtain p where "percentage_of
      (fst (foldl (tally_question s k) (0, 0) [int i * qps + 1..(int i + 1) * qps]))
      (snd (foldl (tally_question s k) (0, 0) [int i * qps + 1..(int i + 1) * qps])) = Inr p"
    using percentage_of_returns by blast
  then show ?thesis
    by (simp add: tally_subject_def Let_def bindE_def subject_matches_def tally_questions_fst)
qed

lemma tally_subjects_returns:
  "\<exists>d' tq'. foldE (tally_subject s k qps) (zip [m..<m + length ss] ss) (d, tc, tq) =
      Inr (d', tc + sum_list (map (subject_matches s k qps) [m..<m + length ss]), tq')"
proof (induction ss arbitrary: m d tc tq)
  case Nil
  then show ?case by simp
next
  case (Cons x xs)
  have u: "[m..<m + length (x # xs)] = m # [Suc m..<Suc m + length xs]"
    by (simp add: upt_conv_Cons del: upt_Suc)
  obtain d1 tq1 where 1: "tally_subject s k qps (m, x) (d, tc, tq) =
      Inr (d1, tc + subject_matches s k qps m, tq1)"
    using tally_subject_returns by blast
  from Cons.IH [of "Suc m" d1 "tc + subject_matches s k qps m" tq1]
  obtain d2 tq2 where 2: "foldE (tally_subject s k qps) (zip [Suc m..<Suc m + length xs] xs)
       (d1, tc + subject_matches s k qps m, tq1) =
      Inr (d2, tc + subject_matches s k qps m
                 + sum_list (map (subject_matches s k qps) [Suc m..<Suc m + length xs]), tq2)"
    by blast
  have "foldE (tally_subject s k qps) (zip [m..<m + length (x # xs)] (x # xs)) (d, tc, tq) =
      Inr (d2, tc + sum_list (map (subject_matches s k qps) [m..<m + length (x # xs)]), tq2)"
    unfolding u
    by (simp only: zip_Cons_Cons foldE.simps 1 bindE_def sum.case 2 list.map sum_list.Cons
                   add.assoc)
  then show ?case by blast
qed

lemma utils_total_score:
  "\<exists>u. utils_calculate_subject_scores s k None qps = Inr u \<and>
        utils_total_score u = sum_list (map (subject_matches s k qps) [0..<5])"
proof -
  let ?ss = "[''Mathematics'', ''Physics'', ''Chemistry'', ''Biology'', ''English'']"
  have len: "length ?ss = 5" by simp
  obtain d' tq' where f: "foldE (tally_subject s k qps) (zip [0..<length ?ss] ?ss) ([], 0, 0) =
      Inr (d', sum_list (map (subject_matches s k qps) [0..<length ?ss]), tq')"
    using tally_subjects_returns [of s k qps 0 ?ss "[]" 0 0] by (auto simp only: add_0)
  obtain p where p: "percentage_of (sum_list (map (subject_matches s k qps) [0..<length ?ss])) tq' = Inr p"
    using percentage_of_returns by blast
  have "utils_calculate_subject_scores s k None qps =
      Inr \<lparr>utils_subject_scores = d',
           utils_total_score = sum_list (map (subject_matches s k qps) [0..<length ?ss]),
           utils_total_questions = tq', overall_percentage = p\<rparr>"
    unfolding utils_calculate_subject_scores_def option.case Let_def
    by (simp only: f p bindE_def sum.case prod.case)
  then show ?thesis
    unfolding len by simp
qed

lemma py_upper_upper_letter: "upper_letter s \<Longrightarrow> py_upper s = s"
  by (auto simp: upper_letter_def py_upper_def upper_char_def split: list.splits)

lemma exact_keys_full_sheet:
  assumes "exact_keys student"
  shows "full_sheet student"
proof -
  have d: "distinct (map fst student)" and s: "set (map fst student) = py_str ` {1..100}"
    using assms by (auto simp: exact_keys_def)
  have inj: "inj_on question_number (set (map fst student))"
    unfolding s by (rule inj_onI) (auto simp: question_number_py_str)
  have dq: "distinct (map question_number (map fst student))"
    by (rule distinct_map [THEN iffD2, OF conjI [OF d inj]])
  have "question_number ` set (map fst student) = Some ` {1..100}"
    unfolding s by (auto simp: question_number_py_str image_iff)
  then have sq: "set (map question_number (map fst student)) = set (map Some [1..100])"
    by (simp only: set_map set_upto)
  show ?thesis
    unfolding full_sheet_def map_map [symmetric] using dq sq by (rule conjI)
qed

lemma subject_counts_agree:
  assumes sk: "exact_keys student" and kk: "exact_keys key"
      and sv: "list_all upper_letter_answer (map snd student)"
      and kv: "list_all upper_letter (map snd key)"
      and i: "i < 5"
  shows "correct_in default_subject_config key (subjects default_subject_config ! i) student =
           subject_matches student key 20 i"
proof -
  let ?cfg = default_subject_config
  let ?P = "\<lambda>item. scored_under ?cfg key item = Some (subjects ?cfg ! i)
                     \<and> credited key is_correct item"
  let ?g = "\<lambda>q. (py_str q, the (map_of student (py_str q)))"
  have fs: "full_sheet student" using sk by (rule exact_keys_full_sheet)
  have ds: "distinct (map fst student)" and ss: "set (map fst student) = py_str ` {1..100}"
    using sk by (auto simp: exact_keys_def)
  have dl: "distinct student" using ds by (rule distinct_map [THEN iffD1, THEN conjunct1])
  have blk: "[int i * 20 + 1..(int i + 1) * 20] = [int i * 20 + 1..int i * 20 + 20]"
    by (simp add: algebra_simps)
  have "{item \<in> set student. ?P item} =
          ?g ` {q \<in> block i. answers_agree student key q}"
  proof (intro set_eqI iffI)
    fix item assume "item \<in> {item \<in> set student. ?P item}"
    then have mem: "item \<in> set student" and P: "?P item" by auto
    obtain k a where item: "item = (k, a)" by (cases item)
    have "k \<in> py_str ` {1..100}" using mem ss item by force
    then obtain q where q: "k = py_str q" "1 \<le> q" "q \<le> 100" by auto
    have ma: "map_of student (py_str q) = Some a"
      using mem ds item q by simp
    from P have su: "map_of key (fst item) \<noteq> None"
      and bl: "question_number (fst item) \<in> Some ` block i"
      and cr: "credited key is_correct item"
      using full_sheet_scored_under [OF fs mem i, of key] by auto
    have qb: "q \<in> block i" using bl item q by (auto simp: question_number_py_str)
    obtain l where ml: "map_of key (py_str q) = Some l"
      using su item q by auto
    have ic: "is_correct a l" using cr ml item q by (simp add: credited_def)
    have "upper_letter_answer a" using sv mem item by (force simp: list_all_iff)
    then obtain sa where a: "a = AStr sa" "upper_letter sa"
      by (auto simp: upper_letter_answer_def split: answer.splits)
    have "(py_str q, l) \<in> set key" using ml by (rule map_of_SomeD)
    then have "upper_letter l" using kv by (force simp: list_all_iff)
    then have "sa = l" using ic a by (simp add: py_upper_upper_letter)
    then have "answers_agree student key q"
      using ma ml a by (simp add: answers_agree_def)
    moreover have "?g q = item" using ma item q by simp
    ultimately show "item \<in> ?g ` {q \<in> block i. answers_agree student key q}"
      using qb by blast
  next
    fix item assume "item \<in> ?g ` {q \<in> block i. answers_agree student key q}"
    then obtain q where q: "q \<in> block i" "answers_agree student key q" "item = ?g q" by auto
    then obtain a l where ma: "map_of student (py_str q) = Some a"
      and ml: "map_of key (py_str q) = Some l" and al: "a = AStr l"
      by (auto simp: answers_agree_def split: option.splits)
    have mem: "item \<in> set student"
      using ma q(3) by (auto dest: map_of_SomeD)
    have "?P item"
      using full_sheet_scored_under [OF fs mem i, of key] q ma ml al
      by (simp add: question_number_py_str credited_def)
    then show "item \<in> {item \<in> set student. ?P item}" using mem by simp
  qed
  moreover have "inj_on ?g {q \<in> block i. answers_agree student key q}"
    by (rule inj_onI) (auto dest: py_str_inj)
  ultimately have "card {item \<in> set student. ?P item} =
      card {q \<in> block i. answers_agree student key q}"
    by (simp add: card_image)
  moreover have "length (filter ?P student) = card {item \<in> set student. ?P item}"
    using dl by (simp add: distinct_length_filter Int_def conj_commute)
  moreover have "length (filter (answers_agree student key) [int i * 20 + 1..int i * 20 + 20]) =
      card {q \<in> block i. answers_agree student key q}"
    by (simp add: distinct_length_filter Int_def block_def conj_commute)
  ultimately show ?thesis
    by (simp add: correct_in_def subject_matches_def blk)
qed

text \<open>
  Claim C10. When the keys of the student answers and of the answer key are exactly the
  strings \<^verbatim>\<open>"1"\<close> to \<^verbatim>\<open>"100"\<close> and every value is a single upper-case letter, both
  \<^verbatim>\<open>OMRProcessor.calculate_subject_scores\<close> and \<^verbatim>\<open>utils.calculate_subject_scores\<close>
  (default subjects, 20 questions per subject) return, and their total scores are equal
  numbers: the float of the first is the int of the second.
\<close>

theorem scorers_agree_on_total:
  assumes sk: "exact_keys student_answers" and kk: "exact_keys answer_key"
      and sv: "list_all upper_letter_answer (map snd student_answers)"
      and kv: "list_all upper_letter (map snd answer_key)"
  shows "\<exists>r u. calculate_subject_scores default_subject_config student_answers answer_key = Inr r \<and>
               utils_calculate_subject_scores student_answers answer_key None 20 = Inr u \<and>
               py_num_eq (total_score r) (PyInt (utils_total_score u))"
proof -
  let ?cfg = default_subject_config
  let ?c = "\<lambda>s. correct_in ?cfg answer_key s student_answers"
  let ?m = "subject_matches student_answers answer_key 20"
  have fs: "full_sheet student_answers" using sk by (rule exact_keys_full_sheet)
  obtain r where ret: "calculate_subject_scores ?cfg student_answers answer_key = Inr r"
    using calculate_subject_scores_returns
            [OF default_subjects_distinct(1) default_positive full_sheet_scorable [OF fs]]
    by blast
  obtain u where u: "utils_calculate_subject_scores student_answers answer_key None 20 = Inr u"
    and ut: "utils_total_score u = sum_list (map ?m [0..<5])"
    using utils_total_score by blast
  have idx: "subjects ?cfg = map (\<lambda>i. subjects ?cfg ! i) [0..<5]"
    using map_nth [of "subjects ?cfg"] by (simp only: default_subjects_distinct(2))
  have m: "?c (subjects ?cfg ! i) = ?m i" if "i < 5" for i
    using subject_counts_agree [OF sk kk sv kv that] .
  have bounds: "0 \<le> ?m i \<and> ?m i \<le> 20" if "i < 5" for i
    using full_sheet_correct_in_le [OF fs that, of answer_key] m [OF that] by simp
  have pts: "map (\<lambda>s. final_score (subject_result ?cfg (?c s))) (subjects ?cfg) =
             map (\<lambda>c. PyFloat (of_int c)) (map ?m [0..<5])"
  proof -
    have "map (\<lambda>s. final_score (subject_result ?cfg (?c s))) (subjects ?cfg) =
          map (\<lambda>i. final_score (subject_result ?cfg (?c (subjects ?cfg ! i)))) [0..<5]"
      by (subst idx) (simp only: map_map comp_def)
    also have "\<dots> = map (\<lambda>i. PyFloat (of_int (?m i))) [0..<5]"
      using bounds m by (intro map_cong [OF refl]) (simp add: final_score_exact)
    finally show ?thesis by (simp only: map_map comp_def)
  qed
  have five: "[0..<5] = [0, 1, 2, 3, 4::nat]"
    by (simp add: upt_rec)
  have nn: "\<forall>c \<in> set (map ?m [0..<5]). 0 \<le> c"
    using bounds by auto
  have "sum_list (map ?m [0..<5]) \<le> 100"
    using bounds [of 0] bounds [of 1] bounds [of 2] bounds [of 3] bounds [of 4]
    unfolding five by simp
  then have small: "sum_list (map ?m [0..<5]) < 2 ^ 53"
    by simp
  have "total_score r = py_sum (map (\<lambda>s. final_score (subject_result ?cfg (?c s))) (subjects ?cfg))"
    by (subst calculate_subject_scores_tabulate [OF default_subjects_distinct(1) default_positive ret])
       simp
  also have "\<dots> = PyFloat (of_int (sum_list (map ?m [0..<5])))"
    unfolding pts using nn small by (intro py_sum_ints) simp_all
  finally have "py_num_eq (total_score r) (PyInt (utils_total_score u))"
    by (simp add: py_num_eq_def ut)
  then show ?thesis
    using ret u by blast
qed

lemma numbered_keys_exact: "exact_keys (map (\<lambda>i. (py_str i, v i)) [1..100])"
  by (simp add: exact_keys_def comp_def distinct_map inj_py_str [THEN inj_on_subset])

theorem scorers_agree_on_total_witness:
  "exact_keys (map (\<lambda>i. (py_str i, AStr (if even i then ''A'' else ''B''))) [1..100]) \<and>
   exact_keys (map (\<lambda>i. (py_str i, ''B'')) [1..100]) \<and>
   list_all upper_letter_answer
     (map snd (map (\<lambda>i. (py_str i, AStr (if even i then ''A'' else ''B''))) [1..100])) \<and>
   list_all upper_letter (map snd (map (\<lambda>i. (py_str i, ''B'')) [1..100])) \<and>
   (\<exists>r u. calculate_subject_scores default_subject_config
            (map (\<lambda>i. (py_str i, AStr (if even i then ''A'' else ''B''))) [1..100])
            (map (\<lambda>i. (py_str i, ''B'')) [1..100]) = Inr r \<and>
          utils_calculate_subject_scores
            (map (\<lambda>i. (py_str i, AStr (if even i then ''A'' else ''B''))) [1..100])
            (map (\<lambda>i. (py_str i, ''B'')) [1..100]) None 20 = Inr u \<and>
          py_num_eq (total_score r) (PyInt (utils_total_score u)))"
proof -
  have a: "upper_letter ''A''" and b: "upper_letter ''B''"
    by code_simp+
  have sv: "list_all upper_letter_answer
     (map snd (map (\<lambda>i. (py_str i, AStr (if even i then ''A'' else ''B''))) [1..100]))"
    using a b by (simp add: list_all_iff upper_letter_answer_def)
  have kv: "list_all upper_letter (map snd (map (\<lambda>i. (py_str i, ''B'')) [1..100]))"
    using b by (simp add: list_all_iff)
  show ?thesis
    using numbered_keys_exact [of "\<lambda>i. AStr (if even i then ''A'' else ''B'')"]
          numbered_keys_exact [of "\<lambda>i. ''B''"] sv kv
          scorers_agree_on_total [OF numbered_keys_exact numbered_keys_exact sv kv]
    by blast
qed

subsection \<open>A sheet without bubbles\<close>

lemmas prog_defs = bindS_def call_def update_def lift_def lookup_def returnS_def raiseS_def

lemma prepare_frame:
  "prepare env image_path version_arg (r, w) = (x, (r', w')) \<Longrightarrow>
     bubble_detection r' = bubble_detection r \<and> success r' = success r \<and>
     mapped_answers r' = mapped_answers r \<and> score_section r' = score_section r"
  by (auto simp: prepare_def prog_defs split: prod.splits sum.splits option.splits)

lemma detect_cases:
  assumes "detect env img (r, w) = (x, (r', w'))"
  shows "(\<exists>e. x = Inl e \<and> r' = r) \<or>
         (\<exists>br. r' = r\<lparr>bubble_detection := Some br\<rparr> \<and>
               (case bubbles_detected br of
                  None \<Rightarrow> \<exists>m. x = Inl (KeyError m)
                | Some n \<Rightarrow> if n = 0 then x = Inl (ValueError ''No bubbles detected in the image'')
                            else x = Inr br))"
  using assms
  by (auto simp: detect_def prog_defs split: prod.splits sum.splits option.splits if_splits)

lemma score_step_frame:
  "score_step self version sa (r, w) = (x, (r', w')) \<Longrightarrow>
     bubble_detection r' = bubble_detection r \<and> success r' = success r \<and>
     mapped_answers r' = mapped_answers r \<and> w' = w"
  by (auto simp: score_step_def prog_defs split: prod.splits sum.splits option.splits)

lemma map_and_score_frame:
  "map_and_score env self version br (r, w) = (x, (r', w')) \<Longrightarrow>
     bubble_detection r' = bubble_detection r \<and> success r' = success r"
  by (auto simp: map_and_score_def prog_defs split: prod.splits sum.splits option.splits
           dest!: score_step_frame)

lemma render_frame:
  "render env image_path br am (r, w) = (x, (r', w')) \<Longrightarrow>
     bubble_detection r' = bubble_detection r \<and> mapped_answers r' = mapped_answers r \<and>
     score_section r' = score_section r \<and>
     (case x of Inl e \<Rightarrow> success r' = success r | Inr u \<Rightarrow> success r')"
  by (auto simp: render_def prog_defs split: prod.splits sum.splits option.splits)

lemma bindS_cases:
  assumes "bindS m f s = (x, s'')"
  obtains (raised) e where "m s = (Inl e, s'')" "x = Inl e"
        | (went_on) v s' where "m s = (Inr v, s')" "f v s' = (x, s'')"
  using assms by (auto simp: bindS_def split: prod.splits sum.splits)

lemma detect_raised:
  assumes "detect env img (r, w) = (Inl e, (r', w'))"
  shows "bubble_detection r' = bubble_detection r \<and> success r' = success r \<or>
         (\<exists>br. bubble_detection r' = Some br \<and> success r' = success r \<and>
               (bubbles_detected br = Some 0 \<longrightarrow>
                  e = ValueError ''No bubbles detected in the image''))"
  using detect_cases [OF assms]
  by (auto split: option.splits if_splits)

lemma detect_returned:
  assumes "detect env img (r, w) = (Inr br, (r', w'))"
  shows "bubble_detection r' = Some br \<and> success r' = success r \<and>
         bubbles_detected br \<noteq> Some 0"
  using detect_cases [OF assms]
  by (auto split: option.splits if_splits)

lemma pipeline_zero_bubbles:
  assumes run: "pipeline env self image_path version_arg (r0, w0) = (x, (r, w'))"
      and init: "bubble_detection r0 = None" "\<not> success r0"
      and zero: "zero_bubbles r"
  shows "x = Inl (ValueError ''No bubbles detected in the image'') \<and> \<not> success r"
  using run unfolding pipeline_def
proof (cases rule: bindS_cases)
  case (raised e)
  have "bubble_detection r = None"
    using prepare_frame [OF raised(1)] init by simp
  then show ?thesis using zero by (simp add: zero_bubbles_def)
next
  case (went_on v s1)
  obtain img version where v: "v = (img, version)" by (cases v)
  obtain r1 w1 where s1: "s1 = (r1, w1)" by (cases s1)
  have f1: "bubble_detection r1 = None" "\<not> success r1"
    using prepare_frame [OF went_on(1) [unfolded s1]] init by simp_all
  have rest: "bindS (detect env img) (\<lambda>bubble_results.
     bindS (map_and_score env self version bubble_results) (\<lambda>answer_mapping.
       render env image_path bubble_results answer_mapping)) (r1, w1) = (x, (r, w'))"
    using went_on(2) unfolding v s1 by simp
  from rest show ?thesis
  proof (cases rule: bindS_cases)
    case (raised e)
    show ?thesis
      using detect_raised [OF raised(1)] f1 zero raised(2)
      by (auto simp: zero_bubbles_def)
  next
    case (went_on br s2)
    obtain r2 w2 where s2: "s2 = (r2, w2)" by (cases s2)
    have r2: "bubble_detection r2 = Some br" "bubbles_detected br \<noteq> Some 0"
      using detect_returned [OF went_on(1) [unfolded s2]] by simp_all
    have "bubble_detection r = bubble_detection r2"
      using went_on(2) unfolding s2
    proof (cases rule: bindS_cases)
      case (raised e)
      show ?thesis
        using map_and_score_frame [OF raised(1)] by simp
    next
      case (went_on am s3)
      obtain r3 w3 where s3: "s3 = (r3, w3)" by (cases s3)
      show ?thesis
        using map_and_score_frame [OF went_on(1) [unfolded s3]]
              render_frame [OF went_on(2) [unfolded s3]]
        by simp
    qed
    then show ?thesis using r2 zero by (simp add: zero_bubbles_def)
  qed
qed

lemma process_zero_bubbles:
  assumes "process_omr_sheet env self image_path version_arg sid w = (r, w')"
      and "zero_bubbles r"
  shows "captured_failure r"
proof -
  obtain now w0 where now: "utcnow env w = (now, w0)" by (cases "utcnow env w")
  let ?r0 = "initial_result image_path version_arg sid now :: 'a sheet_result"
  obtain x s1 where run1: "pipeline env self image_path version_arg (?r0, w0) = (x, s1)"
    by (cases "pipeline env self image_path version_arg (?r0, w0)")
  obtain r1 w1 where s1: "s1 = (r1, w1)"
    by (cases s1)
  note run = run1 [unfolded s1]
  have init: "bubble_detection ?r0 = None" "\<not> success ?r0"
    by (simp_all add: initial_result_def)
  show ?thesis
  proof (cases x)
    case (Inr u)
    then have r: "r = r1" using assms(1) now run by (simp add: process_omr_sheet_def)
    then show ?thesis
      using pipeline_zero_bubbles [OF run init] assms(2) Inr by simp
  next
    case (Inl e)
    then have r: "r = r1\<lparr>error_message := Some (''Error processing OMR sheet: '' @ str_exn e),
                        success := False\<rparr>"
      using assms(1) now run by (simp add: process_omr_sheet_def)
    then have "zero_bubbles r1" using assms(2) by (simp add: zero_bubbles_def)
    then have "x = Inl (ValueError ''No bubbles detected in the image'')"
      using pipeline_zero_bubbles [OF run init] by simp
    then show ?thesis using r Inl by (simp add: captured_failure_def)
  qed
qed

lemma batch_from_length:
  "length (fst (batch_from env self versions ids i image_paths w)) = length image_paths"
proof (induction image_paths arbitrary: i w)
  case Nil
  then show ?case by simp
next
  case (Cons p ps)
  obtain r w1 where 1: "process_omr_sheet env self p (nth_or_none versions i) (nth_or_none ids i) w = (r, w1)"
    by (cases "process_omr_sheet env self p (nth_or_none versions i) (nth_or_none ids i) w")
  obtain rs w2 where 2: "batch_from env self versions ids (Suc i) ps w1 = (rs, w2)"
    by (cases "batch_from env self versions ids (Suc i) ps w1")
  show ?case
    using Cons.IH [of "Suc i" w1] by (simp add: 1 2)
qed

lemma batch_from_all:
  assumes "\<And>path v sid w r w'. process_omr_sheet env self path v sid w = (r, w') \<Longrightarrow> P r"
  shows "list_all P (fst (batch_from env self versions ids i image_paths w))"
proof (induction image_paths arbitrary: i w)
  case Nil
  then show ?case by simp
next
  case (Cons p ps)
  obtain r w1 where 1: "process_omr_sheet env self p (nth_or_none versions i) (nth_or_none ids i) w = (r, w1)"
    by (cases "process_omr_sheet env self p (nth_or_none versions i) (nth_or_none ids i) w")
  obtain rs w2 where 2: "batch_from env self versions ids (Suc i) ps w1 = (rs, w2)"
    by (cases "batch_from env self versions ids (Suc i) ps w1")
  show ?case
    using Cons.IH [of "Suc i" w1] assms [OF 1] by (simp add: 1 2)
qed

text \<open>
  Claim C3. Whatever the collaborators do: a result of \<^verbatim>\<open>process_omr_sheet\<close> whose
  detection entry reports zero bubbles has \<^verbatim>\<open>success = False\<close> and the error message
  of the \<^verbatim>\<open>ValueError\<close> raised for it; \<^verbatim>\<open>process_omr_sheet\<close> itself returns a result
  and no exception (its type has no exception). \<^verbatim>\<open>batch_process_omr_sheets\<close> returns one
  result per image path, each with the same property.
\<close>

theorem zero_bubbles_failure_is_captured:
  "(process_omr_sheet env self image_path version_arg sid w = (r, w') \<and> zero_bubbles r
      \<longrightarrow> captured_failure r) \<and>
   length (fst (batch_process_omr_sheets env self image_paths versions ids w)) =
     length image_paths \<and>
   list_all (\<lambda>r. zero_bubbles r \<longrightarrow> captured_failure r)
     (fst (batch_process_omr_sheets env self image_paths versions ids w))"
proof (intro conjI impI)
  assume "process_omr_sheet env self image_path version_arg sid w = (r, w') \<and> zero_bubbles r"
  then show "captured_failure r" by (auto intro: process_zero_bubbles)
next
  show "length (fst (batch_process_omr_sheets env self image_paths versions ids w)) =
     length image_paths"
    by (simp add: batch_process_omr_sheets_def batch_from_length)
next
  show "list_all (\<lambda>r. zero_bubbles r \<longrightarrow> captured_failure r)
     (fst (batch_process_omr_sheets env self image_paths versions ids w))"
    unfolding batch_process_omr_sheets_def
    by (rule batch_from_all) (auto dest: process_zero_bubbles)
qed

lemma first_sheet_blank:
  "zero_bubbles (fst (process_omr_sheet demo_env new_processor ''a.jpg'' None (Some ''S1'') 0))"
  by code_simp

lemma demo_batch_outcomes:
  "map success
     (fst (batch_process_omr_sheets demo_env new_processor [''a.jpg'', ''b.jpg''] None
             (Some [''S1'']) 0)) = [False, True]"
  by code_simp

theorem zero_bubbles_failure_is_captured_witness:
  "zero_bubbles (fst (process_omr_sheet demo_env new_processor ''a.jpg'' None (Some ''S1'') 0)) \<and>
   captured_failure
     (fst (process_omr_sheet demo_env new_processor ''a.jpg'' None (Some ''S1'') 0)) \<and>
   length (fst (batch_process_omr_sheets demo_env new_processor [''a.jpg'', ''b.jpg''] None
                  (Some [''S1'']) 0)) = length [''a.jpg'', ''b.jpg''] \<and>
   map success
     (fst (batch_process_omr_sheets demo_env new_processor [''a.jpg'', ''b.jpg''] None
             (Some [''S1'']) 0)) = [False, True]"
proof -
  let ?p = "process_omr_sheet demo_env new_processor ''a.jpg'' None (Some ''S1'') 0"
  have run: "?p = (fst ?p, snd ?p)"
    by simp
  note t = zero_bubbles_failure_is_captured
             [of demo_env new_processor "''a.jpg''" None "Some ''S1''" 0 "fst ?p" "snd ?p"
                 "[''a.jpg'', ''b.jpg'']" None "Some [''S1'']"]
  show ?thesis
    using t run first_sheet_blank demo_batch_outcomes by blast
qed

subsection \<open>A sheet whose version has no answer key\<close>

lemma render_success:
  assumes "render env image_path br am (r, w) = (x, (r', w'))"
  shows "(case x of
            Inl e \<Rightarrow> \<not> rendered env image_path br am w \<and> success r' = success r
          | Inr u \<Rightarrow> rendered env image_path br am w \<and> success r') \<and>
         bubble_detection r' = bubble_detection r \<and> mapped_answers r' = mapped_answers r \<and>
         score_section r' = score_section r \<and> flagged r' = flagged r \<and>
         error_message r' = error_message r"
proof -
  obtain y w1 where l: "load_image env image_path w = (y, w1)"
    by (cases "load_image env image_path w")
  show ?thesis
  proof (cases y)
    case (Inl e)
    then show ?thesis
      using assms l by (auto simp: render_def rendered_def prog_defs split: option.splits)
  next
    case (Inr original_image)
    show ?thesis
    proof (cases "create_overlay_image original_image br (answers am)")
      case (Inl e)
      then show ?thesis
        using assms l Inr by (auto simp: render_def rendered_def prog_defs split: option.splits)
    next
      case (Inr ov) note ov = this
      obtain z w2 where i: "imwrite env (insert_before_dots ''_overlay'' image_path) ov w1 = (z, w2)"
        by (cases "imwrite env (insert_before_dots ''_overlay'' image_path) ov w1")
      show ?thesis
        using assms l \<open>y = Inr original_image\<close> ov i
        by (cases z) (auto simp: render_def rendered_def prog_defs split: option.splits)
    qed
  qed
qed

text \<open>
  Claim C4. Take a sheet on which preprocessing, detection (with at least one bubble) and
  the mapping of the answers return, and whose version, declared or detected, has no entry
  in the answer keys. Then \<^verbatim>\<open>process_omr_sheet\<close> returns a result whose score section
  is the error payload \<^verbatim>\<open>No answer key for version ...\<close>, whose student answers,
  flagged questions and detection entry are those of the collaborators, and whose
  \<^verbatim>\<open>success\<close> is decided by the rendering steps alone: the missing key never fails
  the sheet.
\<close>

theorem missing_key_is_not_a_failure:
  fixes env :: "('info, 'w) collaborators"
  assumes now: "utcnow env w = (now, w0)"
      and pre: "preprocess_image env image_path w0 = (Inr (img, info), w1)"
      and wr: "imwrite env (insert_before_dots ''_processed'' image_path) (unannotated img) w1
                 = (Inr (), w2)"
      and det: "detect_and_classify_bubbles env img w2 = (Inr br, w3)"
      and n: "bubbles_detected br = Some n" "n \<noteq> 0"
      and g: "grid_structure br = Some g" and cls: "classifications br = Some cls"
      and am: "map_bubbles_to_answers env g cls w3 = (Inr am, w4)"
      and v: "version = (case version_arg of None \<Rightarrow> detect_sheet_version img | Some v \<Rightarrow> v)"
      and missing: "map_of (answer_keys self) version = None"
  shows "\<exists>r w'. process_omr_sheet env self image_path version_arg sid w = (r, w') \<and>
           score_section r = ScoreError (''No answer key for version '' @ version) \<and>
           mapped_answers r = answers am \<and> flagged r = flagged_questions am \<and>
           bubble_detection r = Some br \<and>
           success r = rendered env image_path br am w4 \<and>
           (success r \<longrightarrow> error_message r = None)"
proof -
  let ?r0 = "initial_result image_path version_arg sid now :: 'info sheet_result"
  obtain r1 where p: "prepare env image_path version_arg (?r0, w0) = (Inr (img, version), (r1, w2))"
    and r1: "\<not> success r1" "error_message r1 = None"
    using pre wr v
    by (cases version_arg) (simp_all add: prepare_def prog_defs initial_result_def)
  obtain r2 where d: "detect env img (r1, w2) = (Inr br, (r2, w3))"
    and r2: "\<not> success r2" "error_message r2 = None" "bubble_detection r2 = Some br"
    using det n r1 by (simp add: detect_def prog_defs)
  obtain r3 where m: "map_and_score env self version br (r2, w3) = (Inr am, (r3, w4))"
    and r3: "\<not> success r3" "error_message r3 = None" "bubble_detection r3 = Some br"
      "score_section r3 = ScoreError (''No answer key for version '' @ version)"
      "mapped_answers r3 = answers am" "flagged r3 = flagged_questions am"
    using g cls am missing r2 by (simp add: map_and_score_def score_step_def prog_defs)
  obtain x r4 w' where rn: "render env image_path br am (r3, w4) = (x, (r4, w'))"
    by (metis surj_pair)
  note f = render_success [OF rn]
  have run: "pipeline env self image_path version_arg (?r0, w0) = (x, (r4, w'))"
    by (simp add: pipeline_def bindS_def p d m rn)
  show ?thesis
  proof (cases x)
    case (Inr u)
    then show ?thesis
      using now run f r3 by (simp add: process_omr_sheet_def)
  next
    case (Inl e)
    then show ?thesis
      using now run f r3 by (simp add: process_omr_sheet_def)
  qed
qed

theorem missing_key_is_not_a_failure_witness:
  "utcnow demo_env 5 = (''2024-01-01T00:00:00'', 5) \<and>
   preprocess_image demo_env ''b.jpg'' 5 = (Inr (Gray [[255]], ()), 5) \<and>
   imwrite demo_env (insert_before_dots ''_processed'' ''b.jpg'') (unannotated (Gray [[255]])) 5
     = (Inr (), 6) \<and>
   detect_and_classify_bubbles demo_env (Gray [[255]]) 6 = (Inr marked_detection, 6) \<and>
   bubbles_detected marked_detection = Some 4 \<and> (4 :: int) \<noteq> 0 \<and>
   grid_structure marked_detection = Some marked_grid \<and>
   classifications marked_detection = Some [True, False, False, False] \<and>
   map_bubbles_to_answers demo_env marked_grid [True, False, False, False] 6
     = (Inr demo_mapping, 6) \<and>
   ''Z'' = (case Some ''Z'' of None \<Rightarrow> detect_sheet_version (Gray [[255]]) | Some v \<Rightarrow> v) \<and>
   map_of (answer_keys new_processor) ''Z'' = None \<and>
   (\<exists>r w'. process_omr_sheet demo_env new_processor ''b.jpg'' (Some ''Z'') (Some ''S2'') 5 = (r, w') \<and>
      score_section r = ScoreError (''No answer key for version '' @ ''Z'') \<and>
      mapped_answers r = answers demo_mapping \<and> flagged r = flagged_questions demo_mapping \<and>
      bubble_detection r = Some marked_detection \<and>
      success r = rendered demo_env ''b.jpg'' marked_detection demo_mapping 6 \<and>
      (success r \<longrightarrow> error_message r = None)) \<and>
   rendered demo_env ''b.jpg'' marked_detection demo_mapping 6"
proof -
  have now: "utcnow demo_env 5 = (''2024-01-01T00:00:00'', 5)"
    by (simp add: demo_env_def)
  have pre: "preprocess_image demo_env ''b.jpg'' 5 = (Inr (Gray [[255]], ()), 5)"
    by (simp add: demo_env_def)
  have wr: "imwrite demo_env (insert_before_dots ''_processed'' ''b.jpg'')
              (unannotated (Gray [[255]])) 5 = (Inr (), 6)"
    by (simp add: demo_env_def)
  have det: "detect_and_classify_bubbles demo_env (Gray [[255]]) 6 = (Inr marked_detection, 6)"
    by (simp add: demo_env_def)
  have n: "bubbles_detected marked_detection = Some 4" "(4 :: int) \<noteq> 0"
    by (simp_all add: marked_detection_def)
  have g: "grid_structure marked_detection = Some marked_grid"
    and cls: "classifications marked_detection = Some [True, False, False, False]"
    by (simp_all add: marked_detection_def)
  have am: "map_bubbles_to_answers demo_env marked_grid [True, False, False, False] 6
              = (Inr demo_mapping, 6)"
    by (simp add: demo_env_def)
  have v: "''Z'' = (case Some ''Z'' of None \<Rightarrow> detect_sheet_version (Gray [[255]]) | Some v \<Rightarrow> v)"
    by simp
  have missing: "map_of (answer_keys new_processor) ''Z'' = None"
    by (simp add: new_processor_def)
  have rn: "rendered demo_env ''b.jpg'' marked_detection demo_mapping 6"
    by code_simp
  show ?thesis
    using now pre wr det n g cls am v missing rn
          missing_key_is_not_a_failure [OF now pre wr det n g cls am v missing, of "Some ''S2''"]
    by simp
qed

subsection \<open>The overlay renderer\<close>

text \<open>
  The guard of \<^verbatim>\<open>create_overlay_image\<close> stands before the \<^verbatim>\<open>try\<close>: a grid that is a
  non-empty dict without the entry \<^verbatim>\<open>rows\<close> raises \<^verbatim>\<open>KeyError\<close> there. A grayscale
  original is converted to three channels before anything else, so the image returned for a
  missing grid is that conversion, not the original.
\<close>

theorem overlay_claim_counterexample:
  "create_overlay_image (Gray [[7]])
     \<lparr>bubbles_detected = Some 0, grid_structure = None, classifications = None,
      confidence_scores = None\<rparr> []
     \<noteq> Inr (unannotated (Gray [[7]])) \<and>
   create_overlay_image (Color [[(1, 2, 3)]])
     \<lparr>bubbles_detected = Some 4,
      grid_structure = Some \<lparr>rows = None, grid_other_keys = [''total_rows'']\<rparr>,
      classifications = Some [True, False, False, False], confidence_scores = None\<rparr> []
     = Inl (KeyError ([CHR 0x27] @ ''rows'' @ [CHR 0x27]))"
  by (simp add: create_overlay_image_def unannotated_def grid_truthy_def)

text \<open>
  Claim C5, amended. Whatever the original image and the student answers, the renderer
  returns an image whenever the grid is missing, is an empty dict, or has an entry
  \<^verbatim>\<open>rows\<close>: every failure of the drawing is caught. When the grid is missing, is empty or
  has no rows, the image returned carries no annotation; it is the gray-to-BGR conversion of
  the original, which for a colour original is the original itself.
\<close>

theorem overlay_never_raises_with_rows_entry:
  "(rows_entry_present bubble_results \<longrightarrow>
      (\<exists>ov. create_overlay_image original_image bubble_results student_answers = Inr ov)) \<and>
   (grid_missing_or_no_rows bubble_results \<longrightarrow>
      create_overlay_image original_image bubble_results student_answers =
        Inr (unannotated (to_bgr original_image))) \<and>
   to_bgr (Color px) = Color px"
  by (auto simp: rows_entry_present_def grid_missing_or_no_rows_def create_overlay_image_def
                 Let_def grid_truthy_def
           split: option.splits)

theorem overlay_never_raises_with_rows_entry_witness:
  "rows_entry_present marked_detection \<and>
   (\<exists>ov. create_overlay_image (Gray [[255]]) marked_detection [(''1'', AStr ''A'')] = Inr ov) \<and>
   create_overlay_image (Gray [[255]]) marked_detection [(''1'', AStr ''A'')] =
     Inr \<lparr>base = Color [[(255, 255, 255)]],
          drawn = [Circle 100 50 8 (0, 255, 0) 3, Circle 130 50 8 (255, 0, 0) 1,
                   Circle 160 50 8 (255, 0, 0) 1, Circle 190 50 8 (255, 0, 0) 1,
                   Label ''Q1'' 70 50]\<rparr> \<and>
   grid_missing_or_no_rows blank_detection \<and>
   create_overlay_image (Gray [[255]]) blank_detection [] =
     Inr (unannotated (to_bgr (Gray [[255]]))) \<and>
   create_overlay_image (Color [[(9, 9, 9)]]) blank_detection [] =
     Inr (unannotated (Color [[(9, 9, 9)]]))"
proof -
  have p: "rows_entry_present marked_detection"
    by (simp add: rows_entry_present_def marked_detection_def marked_grid_def)
  have m: "grid_missing_or_no_rows blank_detection"
    by (simp add: grid_missing_or_no_rows_def blank_detection_def)
  have d: "create_overlay_image (Gray [[255]]) marked_detection [(''1'', AStr ''A'')] =
     Inr \<lparr>base = Color [[(255, 255, 255)]],
          drawn = [Circle 100 50 8 (0, 255, 0) 3, Circle 130 50 8 (255, 0, 0) 1,
                   Circle 160 50 8 (255, 0, 0) 1, Circle 190 50 8 (255, 0, 0) 1,
                   Label ''Q1'' 70 50]\<rparr>"
    by code_simp
  note t = overlay_never_raises_with_rows_entry
  show ?thesis
    using p m d
          t [of marked_detection "Gray [[255]]" "[(''1'', AStr ''A'')]"]
          t [of blank_detection "Gray [[255]]" "[]"]
          t [of blank_detection "Color [[(9, 9, 9)]]" "[]" "[[(9, 9, 9)]]"]
    by simp
qed

subsection \<open>Question numbers below 1\<close>

text \<open>A key that is no integer literal makes \<^verbatim>\<open>int\<close> raise \<^verbatim>\<open>ValueError\<close>.\<close>

lemma malformed_key_raises_value_error:
  "calculate_subject_scores default_subject_config [(''q1'', AStr ''A'')] [(''q1'', ''A'')] =
     Inl (invalid_literal ''q1'')"
  "calculate_subject_scores default_subject_config [(''1a'', AStr ''A'')] [(''1a'', ''A'')] =
     Inl (invalid_literal ''1a'')"
  by code_simp+

text \<open>
  Claim C6. Subject \<open>i\<close> is to own exactly the questions \<open>i * k + 1\<close> to \<open>(i + 1) * k\<close>,
  and a question outside the configured subjects is to be ignored. The guard
  \<^verbatim>\<open>subject_index >= len(subjects)\<close> has no lower bound: question 0 has subject index
  \<open>- 1\<close>, which Python reads from the end of the list, so that the question is scored under
  the last subject, English, whose questions are 81 to 100.
\<close>

theorem question_zero_goes_to_last_subject:
  "calculate_subject_scores default_subject_config [(''0'', AStr ''A'')] [(''0'', ''A'')] =
     Inr \<lparr>subject_scores =
            [(''Mathematics'', PyFloat 0), (''Physics'', PyFloat 0), (''Chemistry'', PyFloat 0),
             (''Biology'', PyFloat 0), (''English'', PyFloat 1)],
          total_score = PyFloat 1, correct_answers = 1, total_questions = 1,
          subject_breakdown =
            [(''Mathematics'', \<lparr>correct = 0, total = 20, percentage = PyFloat 0\<rparr>),
             (''Physics'', \<lparr>correct = 0, total = 20, percentage = PyFloat 0\<rparr>),
             (''Chemistry'', \<lparr>correct = 0, total = 20, percentage = PyFloat 0\<rparr>),
             (''Biology'', \<lparr>correct = 0, total = 20, percentage = PyFloat 0\<rparr>),
             (''English'', \<lparr>correct = 1, total = 20, percentage = PyFloat 5\<rparr>)]\<rparr>"
  by code_simp

text \<open>
  Claim C9. The scorer is to return whenever every shared key, once the letters \<open>Q\<close> are
  deleted, is an integer literal. The key \<^verbatim>\<open>-101\<close> is one (\<^verbatim>\<open>int\<close> reads it as
  \<open>- 101\<close>); its subject index \<open>- 6\<close> passes the guard and the indexing of the five
  subjects raises \<^verbatim>\<open>IndexError\<close>.
\<close>

theorem integer_key_raises_index_error:
  "py_int (delete_char CHR ''Q'' ''-101'') = Some (- 101) \<and>
   calculate_subject_scores default_subject_config [(''-101'', AStr ''A'')] [(''-101'', ''A'')] =
     Inl (IndexError ''list index out of range'')"
  by code_simp

end
